theory Spec2Isabelle
  imports Complex_Main "HOL-Library.AList"
begin

section \<open>Input calibration post-processor (kivy/input/postproc/calibration.py)\<close>

text \<open>
  The module holds one class, \<open>InputPostprocCalibration\<close>. Its constructor reads the
  section \<open>postproc:calibration\<close> of the configuration into the dictionary
  \<open>self.devices\<close>; its method \<open>process\<close> rewrites the normalised position of the
  events of a batch.

  Conventions of the embedding:
  \<^item> a Python dictionary is an association list, looked up with \<open>map_of\<close> and written
    with \<open>AList.update\<close> (an existing key keeps its place, a new key goes to the end:
    the insertion order of a Python dictionary);
  \<^item> an exception is a value of the type \<open>error\<close>, returned as \<open>Inl\<close>;
  \<^item> the float type of Python is a type parameter \<open>'f\<close> with \<open>0\<close>, \<open>1\<close>, \<open>*\<close> and \<open>+\<close>, of
    which nothing is assumed: the definitions and the general theorems are the same for
    every arithmetic. The examples run on the type \<open>double\<close> below, the binary64 numbers
    with rounding to nearest, ties to even;
  \<^item> a character is a code point below 256;
  \<^item> event objects live in a store, a function from object identities to event values;
    a batch is a list of pairs of an event type and an object identity, so that one
    object may occur several times in a batch;
  \<^item> the log written through \<open>Logger.error\<close> is a list of messages.
\<close>

subsection \<open>Data\<close>

datatype error =
    NotEnoughValues            \<comment> \<open>ValueError of the unpacking \<open>key, value = ...\<close>\<close>
  | CouldNotConvert string     \<comment> \<open>ValueError of \<open>float(value)\<close>\<close>
  | KeyError string            \<comment> \<open>a dictionary read of a missing key\<close>

type_synonym 'f params = "(string \<times> 'f) list"

type_synonym 'f table = "(string \<times> 'f params) list"

text \<open>
  The fields of a motion event that the module touches: \<open>event.device\<close>,
  \<open>event.sx\<close>, \<open>event.sy\<close>, the dictionary \<open>event.ud\<close>, and, for \<open>isinstance\<close>,
  the names of the classes the event is an instance of.
\<close>

record 'f event =
  device :: "string option"
  sx :: 'f
  sy :: 'f
  ud :: "string \<rightharpoonup> int"
  classes :: "string list"

record 'f stage =
  devices :: "'f table"
  frame :: int
  provider_map :: "(string \<times> string list) list"

type_synonym 'f store = "nat \<Rightarrow> 'f event"

type_synonym batch = "(string \<times> nat) list"

subsection \<open>String operations of the constructor\<close>

text \<open>
  \<open>str.isspace\<close> on the code points below 256: the ASCII blanks and separators,
  NEXT LINE (0x85) and NO-BREAK SPACE (0xA0).
\<close>

definition isspace :: "char \<Rightarrow> bool" where
  "isspace c = (c \<in> set [CHR '' '', CHR 0x09, CHR 0x0A, CHR 0x0B, CHR 0x0C, CHR 0x0D,
                          CHR 0x1C, CHR 0x1D, CHR 0x1E, CHR 0x1F, CHR 0x85, CHR 0xA0])"

text \<open>\<open>s.strip()\<close>\<close>

definition strip :: "string \<Rightarrow> string" where
  "strip s = rev (dropWhile isspace (rev (dropWhile isspace s)))"

text \<open>\<open>s.split(c)\<close> for a separator of one character: never the empty list.\<close>

fun split :: "char \<Rightarrow> string \<Rightarrow> string list" where
  "split c [] = [[]]"
| "split c (x # xs) =
     (if x = c then [] # split c xs
      else (case split c xs of [] \<Rightarrow> [[x]] | w # ws \<Rightarrow> (x # w) # ws))"

text \<open>\<open>s.split(c, 1)\<close>: at most one cut, at the first occurrence of the separator.\<close>

definition split1 :: "char \<Rightarrow> string \<Rightarrow> string list" where
  "split1 c s =
     (if c \<in> set s then [takeWhile (\<lambda>x. x \<noteq> c) s, tl (dropWhile (\<lambda>x. x \<noteq> c) s)]
      else [s])"

subsection \<open>The constructor\<close>

definition default_params :: "'f::{zero,one} params" where
  "default_params = [(''xoffset'', 0), (''yoffset'', 0), (''xratio'', 1), (''yratio'', 1)]"

definition valid_keys :: "string list" where
  "valid_keys = [''xoffset'', ''yoffset'', ''xratio'', ''yratio'']"

definition invalid_key_msg :: "string \<Rightarrow> string" where
  "invalid_key_msg key = ''Calibration: invalid key provided: '' @ key"

text \<open>
  \<^verbatim>\<open>
  default_params = {'xoffset': 0, 'yoffset': 0, 'xratio': 1, 'yratio': 1}
  for device_key, params_str in Config.items('postproc:calibration'):
      params = default_params.copy()
      for param in params_str.split(','):
          param = param.strip()
          if not param:
              continue
          key, value = param.split('=', 1)
          if key not in ('xoffset', 'yoffset', 'xratio', 'yratio'):
              Logger.error(
                  'Calibration: invalid key provided: {}'.format(key))
          params[key] = float(value)
      self.devices[device_key] = params
  \<close>

  The inner loop, over the pieces of \<open>params_str.split(',')\<close>. The builtin \<open>float\<close> is
  the parameter \<open>float_of\<close>: \<open>None\<close> is its ValueError. The unpacking of a list that
  has not two elements is the other ValueError. Nothing catches either of them. The
  result is the log so far and either the exception or the dictionary \<open>params\<close>.
\<close>

fun parse_params ::
  "(string \<Rightarrow> 'f option) \<Rightarrow> string list \<Rightarrow> 'f params \<Rightarrow> string list
     \<Rightarrow> string list \<times> (error + 'f params)" where
  "parse_params float_of [] ps lg = (lg, Inr ps)"
| "parse_params float_of (param # rest) ps lg =
     (let p = strip param in
      if p = [] then parse_params float_of rest ps lg
      else (case split1 CHR ''='' p of
              [key, value] \<Rightarrow>
                (let lg' = (if key \<notin> set valid_keys then lg @ [invalid_key_msg key]
                             else lg)
                 in (case float_of value of
                       None \<Rightarrow> (lg', Inl (CouldNotConvert value))
                     | Some v \<Rightarrow> parse_params float_of rest (AList.update key v ps) lg'))
            | _ \<Rightarrow> (lg, Inl NotEnoughValues)))"

text \<open>The outer loop, over \<open>Config.items('postproc:calibration')\<close>.\<close>

fun load_devices ::
  "(string \<Rightarrow> 'f::{zero,one} option) \<Rightarrow> (string \<times> string) list \<Rightarrow> 'f table \<Rightarrow> string list
     \<Rightarrow> string list \<times> (error + 'f table)" where
  "load_devices float_of [] devs lg = (lg, Inr devs)"
| "load_devices float_of ((device_key, params_str) # rest) devs lg =
     (case parse_params float_of (split CHR '','' params_str) default_params lg of
        (lg', Inl e) \<Rightarrow> (lg', Inl e)
      | (lg', Inr ps) \<Rightarrow>
          load_devices float_of rest (AList.update device_key ps devs) lg')"

text \<open>
  \<open>__init__\<close>. The provider map that \<open>_get_provider_map\<close> collects from the provider
  registry is the parameter \<open>pm\<close>; the configuration is \<open>None\<close> when it has no
  section \<open>postproc:calibration\<close>, and the items of the section otherwise.
\<close>

definition init ::
  "(string \<Rightarrow> 'f::{zero,one} option) \<Rightarrow> (string \<times> string list) list
     \<Rightarrow> (string \<times> string) list option \<Rightarrow> string list \<times> (error + 'f stage)" where
  "init float_of pm config =
     (case config of
        None \<Rightarrow> ([], Inr \<lparr>devices = [], frame = 0, provider_map = pm\<rparr>)
      | Some items \<Rightarrow>
          (case load_devices float_of items [] [] of
             (lg, Inl e) \<Rightarrow> (lg, Inl e)
           | (lg, Inr devs) \<Rightarrow> (lg, Inr \<lparr>devices = devs, frame = 0, provider_map = pm\<rparr>)))"

subsection \<open>Doubles, for concrete runs\<close>

text \<open>
  A Python float is an IEEE 754 binary64 number. A finite one is the rational number it
  stands for; the two zeros are one value (they are equal under \<open>==\<close>, and \<open>*\<close> and \<open>+\<close>
  tell them apart only in the sign of a zero they return). \<open>round_double\<close> takes a
  rational to the nearest double, ties to the even significand: 53 bits, least exponent
  of a significand bit \<open>-1074\<close>, overflow to infinity from \<open>2 ^ 1024\<close>.
\<close>

datatype double = Finite rat | PosInf | NegInf | NaN

definition pow2 :: "int \<Rightarrow> rat" where
  "pow2 k = (if 0 \<le> k then 2 ^ nat k else 1 / 2 ^ nat (- k))"

text \<open>
  The exponent \<open>e\<close> with \<open>2 ^ e \<le> a < 2 ^ (e + 1)\<close>, by halving or doubling; the
  bounds are enough for \<open>2 ^ (-1075) \<le> a < 2 ^ 1024\<close>, where \<open>round_double\<close> asks for it.
\<close>

fun ilog2_up :: "nat \<Rightarrow> rat \<Rightarrow> int" where
  "ilog2_up 0 a = 0"
| "ilog2_up (Suc n) a = (if a < 2 then 0 else ilog2_up n (a / 2) + 1)"

fun ilog2_down :: "nat \<Rightarrow> rat \<Rightarrow> int" where
  "ilog2_down 0 a = 0"
| "ilog2_down (Suc n) a = (if 1 \<le> a then 0 else ilog2_down n (a * 2) - 1)"

definition ilog2 :: "rat \<Rightarrow> int" where
  "ilog2 a = (if 1 \<le> a then ilog2_up 1024 a else ilog2_down 1075 a)"

definition round_half_even :: "rat \<Rightarrow> int" where
  "round_half_even x =
     (let f = \<lfloor>x\<rfloor>; r = x - of_int f in
      if r < 1 / 2 then f else if 1 / 2 < r then f + 1 else if even f then f else f + 1)"

definition signed_inf :: "rat \<Rightarrow> double" where
  "signed_inf q = (if 0 < q then PosInf else NegInf)"

definition round_double :: "rat \<Rightarrow> double" where
  "round_double q =
     (let a = \<bar>q\<bar> in
      if a = 0 then Finite 0
      else if pow2 1024 \<le> a then signed_inf q
      else if a < pow2 (- 1075) then Finite 0
      else
        (let e = max (ilog2 a - 52) (- 1074);
             v = of_int (round_half_even (a / pow2 e)) * pow2 e
         in if pow2 1024 \<le> v then signed_inf q else Finite (if 0 < q then v else - v)))"

text \<open>The product and the sum of two doubles.\<close>

fun double_mul :: "double \<Rightarrow> double \<Rightarrow> double" where
  "double_mul NaN y = NaN"
| "double_mul x NaN = NaN"
| "double_mul (Finite x) (Finite y) = round_double (x * y)"
| "double_mul (Finite x) PosInf = (if x = 0 then NaN else signed_inf x)"
| "double_mul (Finite x) NegInf = (if x = 0 then NaN else signed_inf (- x))"
| "double_mul PosInf (Finite y) = (if y = 0 then NaN else signed_inf y)"
| "double_mul NegInf (Finite y) = (if y = 0 then NaN else signed_inf (- y))"
| "double_mul PosInf PosInf = PosInf"
| "double_mul PosInf NegInf = NegInf"
| "double_mul NegInf PosInf = NegInf"
| "double_mul NegInf NegInf = PosInf"

fun double_add :: "double \<Rightarrow> double \<Rightarrow> double" where
  "double_add NaN y = NaN"
| "double_add x NaN = NaN"
| "double_add (Finite x) (Finite y) = round_double (x + y)"
| "double_add PosInf NegInf = NaN"
| "double_add NegInf PosInf = NaN"
| "double_add PosInf y = PosInf"
| "double_add NegInf y = NegInf"
| "double_add x PosInf = PosInf"
| "double_add x NegInf = NegInf"

text \<open>
  The integers \<open>0\<close> and \<open>1\<close> of \<open>default_params\<close> enter the arithmetic as the doubles
  \<open>0.0\<close> and \<open>1.0\<close>.
\<close>

instantiation double :: "{zero, one, times, plus}"
begin

definition zero_double :: double where
  "zero_double = Finite 0"

definition one_double :: double where
  "one_double = Finite 1"

definition times_double :: "double \<Rightarrow> double \<Rightarrow> double" where
  "times_double x y = double_mul x y"

definition plus_double :: "double \<Rightarrow> double \<Rightarrow> double" where
  "plus_double x y = double_add x y"

instance ..

end

text \<open>
  The decimal fragment of \<open>float\<close>: an optional sign, digits, and an optional fraction,
  with a digit on at least one side of the point, taken to the nearest double as the
  builtin does. The builtin reads more (exponents, underscores, surrounding blanks,
  \<open>inf\<close>, \<open>nan\<close>); the general theorems below hold for every reader, and this one only
  runs the examples.
\<close>

definition isdigit :: "char \<Rightarrow> bool" where
  "isdigit c = (48 \<le> (of_char c :: nat) \<and> (of_char c :: nat) \<le> 57)"

definition digits_val :: "string \<Rightarrow> nat" where
  "digits_val s = foldl (\<lambda>a c. 10 * a + ((of_char c :: nat) - 48)) 0 s"

definition unsigned_decimal :: "string \<Rightarrow> rat option" where
  "unsigned_decimal s =
     (let ip = takeWhile isdigit s; rest = dropWhile isdigit s in
      case rest of
        [] \<Rightarrow> (if ip = [] then None else Some (of_nat (digits_val ip)))
      | c # fp \<Rightarrow>
          (if c = CHR ''.'' \<and> list_all isdigit fp \<and> (ip \<noteq> [] \<or> fp \<noteq> [])
           then Some (of_nat (digits_val ip) + of_nat (digits_val fp) / 10 ^ length fp)
           else None))"

definition signed_decimal :: "string \<Rightarrow> rat option" where
  "signed_decimal s =
     (case s of
        [] \<Rightarrow> None
      | c # r \<Rightarrow>
          (if c = CHR ''-'' then map_option uminus (unsigned_decimal r)
           else if c = CHR ''+'' then unsigned_decimal r
           else unsigned_decimal s))"

definition decimal_float :: "string \<Rightarrow> double option" where
  "decimal_float s = map_option round_double (signed_decimal s)"

subsection \<open>Key resolution\<close>

text \<open>\<open>key in d\<close>\<close>

definition has_key :: "('k \<times> 'v) list \<Rightarrow> 'k \<Rightarrow> bool" where
  "has_key d k = (k \<in> fst ` set d)"

text \<open>\<open>d[k]\<close>\<close>

definition getitem :: "(string \<times> 'v) list \<Rightarrow> string \<Rightarrow> error + 'v" where
  "getitem d k = (case map_of d k of None \<Rightarrow> Inl (KeyError k) | Some v \<Rightarrow> Inr v)"

definition isinstance :: "'f event \<Rightarrow> string \<Rightarrow> bool" where
  "isinstance e ec = (ec \<in> set (classes e))"

text \<open>
  \<^verbatim>\<open>
  def _get_provider_key(self, event):
      for input_type, ev_class in self.provider_map.items():
          key = '({})'.format(input_type)
          for ec in ev_class:
              if isinstance(event, ec) and key in self.devices:
                  return key
  \<close>

  The provider map is an association list in the order of \<open>items()\<close>; falling off the
  end of the function returns \<open>None\<close>.
\<close>

fun get_provider_key_items ::
  "'f table \<Rightarrow> 'f event \<Rightarrow> (string \<times> string list) list \<Rightarrow> string option" where
  "get_provider_key_items devs e [] = None"
| "get_provider_key_items devs e ((input_type, ev_class) # rest) =
     (let key = ''('' @ input_type @ '')'' in
      if list_ex (\<lambda>ec. isinstance e ec \<and> has_key devs key) ev_class then Some key
      else get_provider_key_items devs e rest)"

definition get_provider_key :: "'f stage \<Rightarrow> 'f event \<Rightarrow> string option" where
  "get_provider_key st e = get_provider_key_items (devices st) e (provider_map st)"

text \<open>
  Lines 114 to 117 of \<open>process\<close>: the value of \<open>dev\<close>. An event without a device id
  (\<open>None\<close>) is in no table.
\<close>

definition select_dev :: "'f stage \<Rightarrow> 'f event \<Rightarrow> string option" where
  "select_dev st e =
     (case device e of
        None \<Rightarrow> get_provider_key st e
      | Some d \<Rightarrow> if has_key (devices st) d then Some d else get_provider_key st e)"

subsection \<open>process\<close>

text \<open>
  \<^verbatim>\<open>
  def process(self, events):
      if not self.devices:
          return events
      self.frame += 1
      frame = self.frame
      for etype, event in events:
          if etype == 'end':
              continue
          if event.device in self.devices:
              dev = event.device
          else:
              dev = self._get_provider_key(event)
          if not dev:
              continue
          if 'calibration:frame' not in event.ud:
              event.ud['calibration:frame'] = frame
          elif event.ud['calibration:frame'] == frame:
              continue
          params = self.devices[dev]
          event.sx = event.sx * params['xratio'] + params['xoffset']
          event.sy = event.sy * params['yratio'] + params['yoffset']
          event.ud['calibration:frame'] = frame
      return events
  \<close>
\<close>

definition calibration_frame :: string where
  "calibration_frame = ''calibration:frame''"

text \<open>
  Lines 114 to 129: the body of the loop of \<open>process\<close> for a pair that is not an
  \<open>'end'\<close> pair, as a function of the event object. \<open>not dev\<close> holds for \<open>None\<close> and
  for the empty string; every \<open>continue\<close> leaves the event as it is.
\<close>

definition calibrate_event ::
  "'f::{times,plus} stage \<Rightarrow> int \<Rightarrow> 'f event \<Rightarrow> error + 'f event" where
  "calibrate_event st fr e =
     (case select_dev st e of
        None \<Rightarrow> Inr e
      | Some dev \<Rightarrow>
          if dev = [] then Inr e
          else if ud e calibration_frame = Some fr then Inr e
          else
            (case getitem (devices st) dev of Inl x \<Rightarrow> Inl x | Inr ps \<Rightarrow>
             case getitem ps ''xratio'' of Inl x \<Rightarrow> Inl x | Inr xr \<Rightarrow>
             case getitem ps ''xoffset'' of Inl x \<Rightarrow> Inl x | Inr xo \<Rightarrow>
             case getitem ps ''yratio'' of Inl x \<Rightarrow> Inl x | Inr yr \<Rightarrow>
             case getitem ps ''yoffset'' of Inl x \<Rightarrow> Inl x | Inr yo \<Rightarrow>
               Inr (e\<lparr>sx := sx e * xr + xo,
                      sy := sy e * yr + yo,
                      ud := (ud e)(calibration_frame := Some fr)\<rparr>)))"

text \<open>
  One turn of the loop, for the pair \<open>(etype, event)\<close> where the event is the object
  \<open>a\<close> of the store.
\<close>

definition process_event ::
  "'f::{times,plus} stage \<Rightarrow> int \<Rightarrow> string \<times> nat \<Rightarrow> 'f store \<Rightarrow> error + 'f store" where
  "process_event st fr p s =
     (case p of (etype, a) \<Rightarrow>
        if etype = ''end'' then Inr s
        else (case calibrate_event st fr (s a) of
                Inl x \<Rightarrow> Inl x
              | Inr e' \<Rightarrow> Inr (s(a := e'))))"

fun process_events ::
  "'f::{times,plus} stage \<Rightarrow> int \<Rightarrow> batch \<Rightarrow> 'f store \<Rightarrow> error + 'f store" where
  "process_events st fr [] s = Inr s"
| "process_events st fr (p # rest) s =
     (case process_event st fr p s of
        Inl x \<Rightarrow> Inl x
      | Inr s' \<Rightarrow> process_events st fr rest s')"

text \<open>
  \<open>process\<close> returns the list it was given; the model returns it with the stage and
  the store as the call leaves them.
\<close>

definition process ::
  "'f::{times,plus} stage \<Rightarrow> batch \<Rightarrow> 'f store \<Rightarrow> error + (batch \<times> 'f stage \<times> 'f store)" where
  "process st events s =
     (if devices st = [] then Inr (events, st, s)
      else
        (let st' = st\<lparr>frame := frame st + 1\<rparr> in
         case process_events st' (frame st') events s of
           Inl x \<Rightarrow> Inl x
         | Inr s' \<Rightarrow> Inr (events, st', s')))"

subsection \<open>Predicates and examples for the statements\<close>

text \<open>
  A dictionary of parameters is complete when it has the four keys that \<open>process\<close>
  reads; a table is complete when each of its entries is. The constructor only builds
  complete tables (\<open>init_stage\<close> below), so \<open>process\<close> meets no KeyError on them.
\<close>

definition complete_params :: "'f params \<Rightarrow> bool" where
  "complete_params ps = list_all (has_key ps) valid_keys"

definition complete_table :: "'f table \<Rightarrow> bool" where
  "complete_table devs = list_all (\<lambda>kp. complete_params (snd kp)) devs"

text \<open>The object \<open>a\<close> occurs in the batch in a pair that is not an \<open>'end'\<close> pair.\<close>

definition live :: "batch \<Rightarrow> nat \<Rightarrow> bool" where
  "live events a = list_ex (\<lambda>p. fst p \<noteq> ''end'' \<and> snd p = a) events"

text \<open>The stage after a call of \<open>process\<close> that returns.\<close>

definition after_call :: "'f stage \<Rightarrow> 'f stage" where
  "after_call st = (if devices st = [] then st else st\<lparr>frame := frame st + 1\<rparr>)"

text \<open>
  Key resolution as the specification words it: the explicit device id when it is a key
  of the table, else the parenthesised name of the first provider type, in the order of
  the provider map, that has an event class of the event and whose parenthesised name
  is a key of the table.
\<close>

definition spec_provider_match :: "'f table \<Rightarrow> 'f event \<Rightarrow> string \<times> string list \<Rightarrow> bool" where
  "spec_provider_match devs e entry =
     ((\<exists>ec \<in> set (snd entry). ec \<in> set (classes e)) \<and>
      ''('' @ fst entry @ '')'' \<in> fst ` set devs)"

definition spec_resolve ::
  "'f table \<Rightarrow> (string \<times> string list) list \<Rightarrow> 'f event \<Rightarrow> string option" where
  "spec_resolve devs pm e =
     (let fallback = map_option (\<lambda>entry. ''('' @ fst entry @ '')'')
                       (find (spec_provider_match devs e) pm)
      in case device e of
           None \<Rightarrow> fallback
         | Some d \<Rightarrow> if d \<in> fst ` set devs then Some d else fallback)"

text \<open>
  An entry cut down to the four parameters \<open>xoffset\<close>, \<open>yoffset\<close>, \<open>xratio\<close>,
  \<open>yratio\<close>, and a table, a stage with every entry cut down.
\<close>

definition canonical_params :: "'f params \<Rightarrow> 'f params" where
  "canonical_params ps = filter (\<lambda>kv. fst kv \<in> set valid_keys) ps"

definition canonical_table :: "'f table \<Rightarrow> 'f table" where
  "canonical_table devs = map (\<lambda>kp. (fst kp, canonical_params (snd kp))) devs"

definition canonical_stage :: "'f stage \<Rightarrow> 'f stage" where
  "canonical_stage st = st\<lparr>devices := canonical_table (devices st)\<rparr>"

text \<open>
  Concrete stages, events and batches for the examples, on doubles. \<open>round_double\<close> of a
  decimal fraction is the float literal of that fraction: \<open>round_double (2 / 5)\<close> is
  \<open>0.4\<close>. The event of the specification's example is \<open>(0.4, 0.3)\<close>; one run of the
  loop body under the entry \<open>xratio=0.5, xoffset=0.1, yratio=2.0, yoffset=0.0\<close> leaves
  it at the doubles printed \<open>0.30000000000000004\<close> and \<open>0.6\<close>.
\<close>

definition example_event :: "double event" where
  "example_event = \<lparr>device = Some ''left'', sx = round_double (2 / 5), sy = round_double (3 / 10), ud = Map.empty,
                     classes = [''MTDMotionEvent'', ''MotionEvent'']\<rparr>"

definition example_event_after :: "double event" where
  "example_event_after =
     example_event\<lparr>sx := Finite (1351079888211149 / 4503599627370496),
                   sy := Finite (5404319552844595 / 9007199254740992),
                   ud := [calibration_frame \<mapsto> 1]\<rparr>"

definition mouse_event :: "double event" where
  "mouse_event = \<lparr>device = Some ''mouse'', sx = Finite (1 / 2), sy = Finite (1 / 2), ud = Map.empty,
                   classes = [''MouseMotionEvent'', ''MotionEvent'']\<rparr>"

definition example_store :: "double store" where
  "example_store = (\<lambda>a. example_event)"

definition example_store_after :: "double store" where
  "example_store_after = example_store(0 := example_event_after)"

definition example_batch :: batch where
  "example_batch = [(''update'', 0), (''end'', 0), (''update'', 0)]"

definition example_stage :: "double stage" where
  "example_stage =
     \<lparr>devices = [(''left'', [(''xoffset'', round_double (1 / 10)), (''yoffset'', Finite 0),
                             (''xratio'', Finite (1 / 2)), (''yratio'', Finite 2)])],
      frame = 0,
      provider_map = [(''mtdev'', [''MTDMotionEvent''])]\<rparr>"

definition unconfigured_stage :: "double stage" where
  "unconfigured_stage = \<lparr>devices = [], frame = 0, provider_map = [(''mtdev'', [''MTDMotionEvent''])]\<rparr>"

definition incomplete_stage :: "double stage" where
  "incomplete_stage = \<lparr>devices = [(''left'', [(''xratio'', Finite (1 / 2))])], frame = 0, provider_map = []\<rparr>"

definition provider_stage :: "double stage" where
  "provider_stage =
     \<lparr>devices = [(''(mtdev)'', [(''xoffset'', 0), (''yoffset'', 0), (''xratio'', Finite (1 / 2)),
                                 (''yratio'', 1)])],
      frame = 0,
      provider_map = [(''mouse'', [''MouseMotionEvent'']), (''mtdev'', [''MTDMotionEvent''])]\<rparr>"

definition foo_stage :: "double stage" where
  "foo_stage =
     \<lparr>devices = [(''left'', [(''xoffset'', 0), (''yoffset'', 0), (''xratio'', 1), (''yratio'', 1),
                             (''foo'', Finite 2)])],
      frame = 0, provider_map = []\<rparr>"

definition empty_key_stage :: "double stage" where
  "empty_key_stage =
     \<lparr>devices = [('''', [(''xoffset'', 0), (''yoffset'', 0), (''xratio'', Finite 2), (''yratio'', 1)])],
      frame = 0, provider_map = []\<rparr>"

definition empty_key_store :: "double store" where
  "empty_key_store = (\<lambda>a. example_event\<lparr>device := Some []\<rparr>)"

section \<open>Auxiliary lemmas\<close>

lemma getitem_has_key: "has_key d k \<Longrightarrow> \<exists>v. getitem d k = Inr v \<and> (k, v) \<in> set d"
  unfolding has_key_def getitem_def
  by (auto split: option.splits dest: map_of_SomeD simp: map_of_eq_None_iff)

lemma get_provider_key_items_has_key:
  "get_provider_key_items devs e pm = Some k \<Longrightarrow> has_key devs k"
  by (induction pm) (auto simp: Let_def list_ex_iff split: if_splits)

lemma select_dev_has_key: "select_dev st e = Some k \<Longrightarrow> has_key (devices st) k"
  by (auto simp: select_dev_def get_provider_key_def split: option.splits if_splits
           dest: get_provider_key_items_has_key)

lemma complete_params_getitem:
  "complete_params ps \<Longrightarrow> k \<in> set valid_keys \<Longrightarrow> \<exists>v. getitem ps k = Inr v"
  by (auto simp: complete_params_def list_all_iff dest: getitem_has_key)

lemma calibrate_event_total:
  assumes "complete_table (devices st)"
  shows "\<exists>e'. calibrate_event st fr e = Inr e'"
proof (cases "select_dev st e")
  case None
  then show ?thesis by (simp add: calibrate_event_def)
next
  case (Some dev)
  from select_dev_has_key [OF Some] obtain ps
    where ps: "getitem (devices st) dev = Inr ps" "(dev, ps) \<in> set (devices st)"
    using getitem_has_key by blast
  with assms have c: "complete_params ps"
    by (auto simp: complete_table_def list_all_iff)
  obtain xr where xr: "getitem ps ''xratio'' = Inr xr"
    using complete_params_getitem [OF c, of "''xratio''"] by (auto simp: valid_keys_def)
  obtain xo where xo: "getitem ps ''xoffset'' = Inr xo"
    using complete_params_getitem [OF c, of "''xoffset''"] by (auto simp: valid_keys_def)
  obtain yr where yr: "getitem ps ''yratio'' = Inr yr"
    using complete_params_getitem [OF c, of "''yratio''"] by (auto simp: valid_keys_def)
  obtain yo where yo: "getitem ps ''yoffset'' = Inr yo"
    using complete_params_getitem [OF c, of "''yoffset''"] by (auto simp: valid_keys_def)
  from Some ps xr xo yr yo show ?thesis by (simp add: calibrate_event_def)
qed

lemma select_dev_cong:
  "device e' = device e \<Longrightarrow> classes e' = classes e \<Longrightarrow> select_dev st e' = select_dev st e"
proof -
  assume d: "device e' = device e" and c: "classes e' = classes e"
  have g: "get_provider_key_items devs e' pm = get_provider_key_items devs e pm" for devs pm
    by (induction pm) (auto simp: isinstance_def c Let_def)
  show ?thesis by (simp add: select_dev_def get_provider_key_def d g split: option.splits)
qed

lemma calibrate_event_fields:
  "calibrate_event st fr e = Inr e' \<Longrightarrow>
     e' = e\<lparr>sx := sx e', sy := sy e', ud := (ud e)(calibration_frame := ud e' calibration_frame)\<rparr>"
  by (auto simp: calibrate_event_def fun_upd_idem split: option.splits if_splits sum.splits)

lemma calibrate_event_idem:
  assumes "calibrate_event st fr e = Inr e'"
  shows "calibrate_event st fr e' = Inr e'"
proof (cases "e' = e")
  case True
  with assms show ?thesis by simp
next
  case False
  with assms have m: "ud e' calibration_frame = Some fr" and
     d: "device e' = device e" "classes e' = classes e"
    by (auto simp: calibrate_event_def split: option.splits if_splits sum.splits)
  show ?thesis
    using m select_dev_cong [OF d, of st]
    by (simp add: calibrate_event_def split: option.splits)
qed

lemma process_event_end: "process_event st fr (''end'', a) s = Inr s"
  by (simp add: process_event_def)

lemma process_event_total:
  "complete_table (devices st) \<Longrightarrow> \<exists>s'. process_event st fr p s = Inr s'"
  using calibrate_event_total [of st fr "s (snd p)"]
  by (cases p) (auto simp: process_event_def)

lemma process_events_total:
  "complete_table (devices st) \<Longrightarrow> \<exists>s'. process_events st fr events s = Inr s'"
proof (induction events arbitrary: s)
  case Nil
  show ?case by simp
next
  case (Cons p events)
  from process_event_total [OF Cons.prems] obtain s1
    where "process_event st fr p s = Inr s1" by blast
  with Cons.IH [OF Cons.prems, of s1] show ?case by simp
qed

lemma process_events_once:
  "process_events st fr events s = Inr s' \<Longrightarrow>
     (if live events a then calibrate_event st fr (s a) = Inr (s' a) else s' a = s a)"
proof (induction events arbitrary: s)
  case Nil
  then show ?case by (simp add: live_def)
next
  case (Cons p events)
  obtain etype b where p: "p = (etype, b)" by (cases p)
  from Cons.prems obtain s1 where
    s1: "process_event st fr p s = Inr s1" and rest: "process_events st fr events s1 = Inr s'"
    by (auto split: sum.splits)
  note IH = Cons.IH [OF rest]
  show ?case
  proof (cases "etype \<noteq> ''end'' \<and> b = a")
    case False
    with s1 p have "s1 a = s a"
      by (auto simp: process_event_def split: if_splits sum.splits)
    moreover from False p have "live (p # events) a = live events a"
      by (auto simp: live_def)
    ultimately show ?thesis using IH by (simp split: if_splits)
  next
    case True
    with s1 p have c: "calibrate_event st fr (s a) = Inr (s1 a)"
      by (auto simp: process_event_def split: sum.splits)
    from True p have l: "live (p # events) a" by (simp add: live_def)
    show ?thesis
    proof (cases "live events a")
      case True
      with IH have "calibrate_event st fr (s1 a) = Inr (s' a)" by simp
      with calibrate_event_idem [OF c] have "s' a = s1 a" by simp
      with c l show ?thesis by simp
    next
      case False
      with IH have "s' a = s1 a" by simp
      with c l show ?thesis by simp
    qed
  qed
qed

lemma has_key_update: "has_key (AList.update k v d) k' = (k' = k \<or> has_key d k')"
  by (auto simp: has_key_def AList.dom_update)

lemma complete_params_update: "complete_params ps \<Longrightarrow> complete_params (AList.update k v ps)"
  by (simp add: complete_params_def list_all_iff has_key_update)

lemma complete_default_params: "complete_params default_params"
  by (simp add: complete_params_def default_params_def valid_keys_def has_key_def)

lemma parse_params_complete:
  "parse_params float_of ts ps lg = (lg', Inr ps') \<Longrightarrow> complete_params ps \<Longrightarrow> complete_params ps'"
proof (induction ts arbitrary: ps lg)
  case Nil
  then show ?case by simp
next
  case (Cons t ts)
  from Cons.prems show ?case
    by (auto simp: Let_def split: if_splits list.splits option.splits
             intro: Cons.IH complete_params_update)
qed

lemma set_update_subset: "set (AList.update k v d) \<subseteq> insert (k, v) (set d)"
  by (induction d) auto

lemma complete_table_update:
  "complete_table devs \<Longrightarrow> complete_params ps \<Longrightarrow> complete_table (AList.update k ps devs)"
  using set_update_subset [of k ps devs]
  by (auto simp: complete_table_def list_all_iff)

lemma load_devices_complete:
  "load_devices float_of items devs lg = (lg', Inr devs') \<Longrightarrow> complete_table devs \<Longrightarrow>
     complete_table devs'"
proof (induction items arbitrary: devs lg)
  case Nil
  then show ?case by simp
next
  case (Cons it items)
  obtain k str where it: "it = (k, str)" by (cases it)
  from Cons.prems it obtain lg1 ps where
    p: "parse_params float_of (split CHR '','' str) default_params lg = (lg1, Inr ps)" and
    r: "load_devices float_of items (AList.update k ps devs) lg1 = (lg', Inr devs')"
    by (auto split: prod.splits sum.splits)
  from parse_params_complete [OF p complete_default_params] Cons.prems(2)
  have "complete_table (AList.update k ps devs)" by (rule complete_table_update [rotated])
  from Cons.IH [OF r this] show ?case .
qed

lemma init_stage:
  assumes "snd (init float_of pm config) = Inr st"
  shows "complete_table (devices st) \<and> frame st = 0 \<and> provider_map st = pm"
proof (cases config)
  case None
  with assms show ?thesis by (auto simp: init_def complete_table_def)
next
  case (Some items)
  with assms obtain lg devs where
    l: "load_devices float_of items [] [] = (lg, Inr devs)" and
    st: "st = \<lparr>devices = devs, frame = 0, provider_map = pm\<rparr>"
    by (auto simp: init_def split: prod.splits sum.splits)
  from load_devices_complete [OF l] st show ?thesis by (simp add: complete_table_def)
qed

lemma parse_params_append:
  "parse_params float_of (xs @ ys) ps lg =
     (case parse_params float_of xs ps lg of
        (lg', Inl e) \<Rightarrow> (lg', Inl e)
      | (lg', Inr ps') \<Rightarrow> parse_params float_of ys ps' lg')"
  by (induction xs arbitrary: ps lg)
     (auto simp: Let_def split: list.splits option.splits prod.splits sum.splits)

lemma load_devices_append:
  "load_devices float_of (xs @ ys) devs lg =
     (case load_devices float_of xs devs lg of
        (lg', Inl e) \<Rightarrow> (lg', Inl e)
      | (lg', Inr devs') \<Rightarrow> load_devices float_of ys devs' lg')"
proof (induction xs arbitrary: devs lg)
  case Nil
  show ?case by simp
next
  case (Cons it xs)
  obtain k str where it: "it = (k, str)" by (cases it)
  show ?case unfolding it
    by (simp add: Cons.IH split: prod.splits sum.splits)
qed

lemma process_events_fields:
  assumes "process_events st fr events s = Inr s'"
  shows "s' a = (s a)\<lparr>sx := sx (s' a), sy := sy (s' a),
                       ud := (ud (s a))(calibration_frame := ud (s' a) calibration_frame)\<rparr>"
proof (cases "live events a")
  case True
  with process_events_once [OF assms, of a]
  have "calibrate_event st fr (s a) = Inr (s' a)" by simp
  then show ?thesis by (rule calibrate_event_fields)
next
  case False
  with process_events_once [OF assms, of a] have "s' a = s a" by simp
  then show ?thesis by simp
qed

lemma process_events_all_end:
  "list_all (\<lambda>p. fst p = ''end'') events \<Longrightarrow> process_events st fr events s = Inr s"
  by (induction events) (auto simp: process_event_def)

lemma ilog2_down_numeral:
  "ilog2_down (numeral k) a = (if 1 \<le> a then 0 else ilog2_down (pred_numeral k) (a * 2) - 1)"
  by (simp add: numeral_eq_Suc)

lemma ilog2_up_numeral:
  "ilog2_up (numeral k) a = (if a < 2 then 0 else ilog2_up (pred_numeral k) (a / 2) + 1)"
  by (simp add: numeral_eq_Suc)

lemma floor_rat_numeral:
  "\<lfloor>numeral a / numeral b :: rat\<rfloor> = numeral a div numeral b"
  by (metis floor_divide_of_int_eq of_int_numeral)

lemmas round_double_eval = round_double_def pow2_def ilog2_def round_half_even_def
  signed_inf_def Let_def ilog2_down_numeral ilog2_up_numeral floor_rat_numeral

lemma double_literals:
  "round_double (2 / 5) = Finite (3602879701896397 / 9007199254740992)"
  "round_double (3 / 10) = Finite (5404319552844595 / 18014398509481984)"
  "round_double (1 / 10) = Finite (3602879701896397 / 36028797018963968)"
  "round_double (3 / 5) = Finite (5404319552844595 / 9007199254740992)"
  by (simp_all add: round_double_eval)

lemmas double_eval = round_double_eval times_double_def plus_double_def zero_double_def
  one_double_def

lemma example_arith:
  "round_double (2 / 5) * Finite (1 / 2) + round_double (1 / 10) =
     Finite (1351079888211149 / 4503599627370496)"
  "round_double (3 / 10) * Finite 2 + Finite 0 = Finite (5404319552844595 / 9007199254740992)"
  "round_double (2 / 5) * Finite 2 + 0 = Finite (3602879701896397 / 4503599627370496)"
  "Finite (1351079888211149 / 4503599627370496) * Finite (1 / 2) + round_double (1 / 10) =
     Finite (1 / 4)"
  by (simp_all add: double_eval)

lemma result_literals:
  "round_double (30000000000000004 / 100000000000000000) =
     Finite (1351079888211149 / 4503599627370496)"
  "round_double (3 / 10) \<noteq> Finite (1351079888211149 / 4503599627370496)"
  by (simp_all add: double_eval)

lemmas decimal_defs = decimal_float_def signed_decimal_def unsigned_decimal_def isdigit_def
  digits_val_def

lemma decimal_float_examples:
  "decimal_float ''0.5'' = Some (Finite (1 / 2))"
  "decimal_float ''2.0'' = Some (Finite 2)"
  "decimal_float ''0.1'' = Some (Finite (3602879701896397 / 36028797018963968))"
  "decimal_float ''0.0'' = Some (Finite 0)"
  "decimal_float ''0.3333'' = Some (Finite (6004199023210345 / 18014398509481984))"
  "decimal_float ''notanumber'' = None"
  "decimal_float ''bar'' = None"
  by (simp_all add: decimal_defs double_eval)

lemma process_Inr:
  "process st events s = Inr (ev', st', s') \<Longrightarrow>
     ev' = events \<and> st' = after_call st \<and>
     (s' = s \<or> process_events st' (frame st') events s = Inr s')"
  by (auto simp: process_def after_call_def Let_def split: if_splits sum.splits)

lemma select_dev_frame [simp]: "select_dev (st\<lparr>frame := f\<rparr>) e = select_dev st e"
  by (simp add: select_dev_def get_provider_key_def split: option.splits)

lemma calibrate_event_frame [simp]:
  "calibrate_event (st\<lparr>frame := f\<rparr>) fr e = calibrate_event st fr e"
  by (cases "select_dev st e") (simp_all add: calibrate_event_def)

lemma select_dev_after_call [simp]: "select_dev (after_call st) e = select_dev st e"
  by (simp add: after_call_def)

lemma calibrate_event_after_call [simp]:
  "calibrate_event (after_call st) fr e = calibrate_event st fr e"
  by (simp add: after_call_def)

lemma getitem_map_of: "map_of d k = Some v \<Longrightarrow> getitem d k = Inr v"
  by (simp add: getitem_def)

lemma calibrate_event_apply:
  assumes "select_dev st e = Some dev" "dev \<noteq> []" "map_of (devices st) dev = Some ps"
    and "map_of ps ''xratio'' = Some xr" "map_of ps ''xoffset'' = Some xo"
    and "map_of ps ''yratio'' = Some yr" "map_of ps ''yoffset'' = Some yo"
    and "ud e calibration_frame \<noteq> Some fr"
  shows "calibrate_event st fr e =
           Inr (e\<lparr>sx := sx e * xr + xo, sy := sy e * yr + yo,
                  ud := (ud e)(calibration_frame := Some fr)\<rparr>)"
  using assms by (simp add: calibrate_event_def getitem_map_of)

lemma calibrate_event_skip:
  "ud e calibration_frame = Some fr \<Longrightarrow> calibrate_event st fr e = Inr e"
  by (simp add: calibrate_event_def split: option.splits)

lemma calibrate_event_unresolved:
  "select_dev st e = None \<or> select_dev st e = Some [] \<Longrightarrow> calibrate_event st fr e = Inr e"
  by (auto simp: calibrate_event_def)

lemma process_live:
  assumes "process st events s = Inr (ev', st', s')" "live events a" "devices st \<noteq> []"
  shows "st' = st\<lparr>frame := frame st + 1\<rparr> \<and>
         calibrate_event st (frame st + 1) (s a) = Inr (s' a)"
proof -
  from assms(1,3) have st': "st' = st\<lparr>frame := frame st + 1\<rparr>"
    and pe: "process_events st' (frame st') events s = Inr s'"
    by (auto simp: process_def Let_def split: sum.splits)
  from process_events_once [OF pe, of a] assms(2) st' show ?thesis by simp
qed

lemma get_provider_key_items_find:
  "get_provider_key_items devs e pm =
     map_option (\<lambda>entry. ''('' @ fst entry @ '')'') (find (spec_provider_match devs e) pm)"
  by (induction devs e pm rule: get_provider_key_items.induct)
     (simp_all add: spec_provider_match_def Let_def list_ex_iff isinstance_def has_key_def)

lemma example_event_after_eq:
  "example_event_after =
     example_event\<lparr>sx := sx example_event * Finite (1 / 2) + round_double (1 / 10),
                   sy := sy example_event * Finite 2 + Finite 0,
                   ud := [calibration_frame \<mapsto> 1]\<rparr>"
  by (simp add: example_event_after_def example_event_def example_arith)

lemmas run_defs = process_def process_event_def calibrate_event_def select_dev_def
  get_provider_key_def has_key_def getitem_def isinstance_def calibration_frame_def Let_def

lemma calibrate_event_marker:
  assumes "calibrate_event st fr e = Inr e'" "select_dev st e = Some dev" "dev \<noteq> []"
  shows "ud e' calibration_frame = Some fr \<and> select_dev st e' = Some dev"
proof -
  from assms have "ud e' calibration_frame = Some fr"
    by (auto simp: calibrate_event_def split: if_splits sum.splits)
  moreover from calibrate_event_fields [OF assms(1)]
  have "device e' = device e" "classes e' = classes e"
    by (auto dest: arg_cong [where f = device] arg_cong [where f = classes])
  then have "select_dev st e' = select_dev st e" by (rule select_dev_cong)
  ultimately show ?thesis using assms(2) by simp
qed

lemma process_twice:
  assumes "select_dev st (s a) = Some dev" and "dev \<noteq> []"
    and "map_of (devices st) dev = Some ps"
    and "map_of ps ''xratio'' = Some xr" and "map_of ps ''xoffset'' = Some xo"
    and "map_of ps ''yratio'' = Some yr" and "map_of ps ''yoffset'' = Some yo"
    and "live events a" and "complete_table (devices st)"
  shows "\<exists>s1 s2.
           process st events s = Inr (events, st\<lparr>frame := frame st + 1\<rparr>, s1) \<and>
           process (st\<lparr>frame := frame st + 1\<rparr>) events s1 =
             Inr (events, st\<lparr>frame := frame st + 2\<rparr>, s2) \<and>
           s2 a = (s1 a)\<lparr>sx := sx (s1 a) * xr + xo, sy := sy (s1 a) * yr + yo,
                          ud := (ud (s1 a))(calibration_frame := Some (frame st + 2))\<rparr>"
proof -
  let ?st1 = "st\<lparr>frame := frame st + 1\<rparr>"
  from assms(3) have ne: "devices st \<noteq> []" by auto
  then have ne1: "devices ?st1 \<noteq> []" by simp
  from process_events_total [of ?st1 "frame st + 1" events s] assms(9)
  obtain s1 where "process_events ?st1 (frame st + 1) events s = Inr s1" by auto
  with ne have p1: "process st events s = Inr (events, ?st1, s1)"
    by (simp add: process_def Let_def)
  from process_events_total [of "?st1\<lparr>frame := frame ?st1 + 1\<rparr>" "frame ?st1 + 1" events s1]
    assms(9)
  obtain s2 where "process_events (?st1\<lparr>frame := frame ?st1 + 1\<rparr>) (frame ?st1 + 1) events s1 = Inr s2"
    by auto
  with ne1 have p2: "process ?st1 events s1 = Inr (events, ?st1\<lparr>frame := frame ?st1 + 1\<rparr>, s2)"
    by (simp add: process_def Let_def)
  have f: "frame ?st1 + 1 = frame st + 2" by simp
  from process_live [OF p1 assms(8) ne]
  have c1: "calibrate_event st (frame st + 1) (s a) = Inr (s1 a)" by simp
  from process_live [OF p2 assms(8) ne1]
  have "calibrate_event ?st1 (frame st + 2) (s1 a) = Inr (s2 a)" unfolding f by simp
  then have c2: "calibrate_event st (frame st + 2) (s1 a) = Inr (s2 a)" by simp
  from calibrate_event_marker [OF c1 assms(1,2)]
  have m: "ud (s1 a) calibration_frame \<noteq> Some (frame st + 2)"
    and d: "select_dev st (s1 a) = Some dev"
    by simp_all
  from calibrate_event_apply [OF d assms(2-7) m] c2
  have "s2 a = (s1 a)\<lparr>sx := sx (s1 a) * xr + xo, sy := sy (s1 a) * yr + yo,
                      ud := (ud (s1 a))(calibration_frame := Some (frame st + 2))\<rparr>"
    by simp
  with p1 p2 show ?thesis unfolding f by simp
qed

lemma process_at_most_once:
  assumes "complete_table (devices st)"
  shows "\<exists>s'. process st events s = Inr (events, after_call st, s') \<and>
           (\<forall>a. s' a = s a \<or>
                calibrate_event st (frame (after_call st)) (s a) = Inr (s' a))"
proof (cases "devices st = []")
  case True
  then show ?thesis by (simp add: process_def after_call_def)
next
  case False
  let ?st1 = "st\<lparr>frame := frame st + 1\<rparr>"
  from process_events_total [of ?st1 "frame st + 1" events s] assms
  obtain s' where pe: "process_events ?st1 (frame st + 1) events s = Inr s'" by auto
  with False have p: "process st events s = Inr (events, after_call st, s')"
    by (simp add: process_def Let_def after_call_def)
  have "s' a = s a \<or> calibrate_event st (frame (after_call st)) (s a) = Inr (s' a)" for a
    using process_events_once [OF pe, of a] False
    by (simp add: after_call_def split: if_splits)
  with p show ?thesis by blast
qed

lemma example_stage_facts:
  "complete_table (devices example_stage)"
  "select_dev example_stage example_event = Some ''left''"
  "map_of (devices example_stage) ''left'' =
     Some [(''xoffset'', round_double (1 / 10)), (''yoffset'', Finite 0),
                             (''xratio'', Finite (1 / 2)), (''yratio'', Finite 2)]"
  "frame example_stage = 0"
  "devices example_stage \<noteq> []"
  by (simp_all add: example_stage_def example_event_def complete_table_def complete_params_def
        valid_keys_def has_key_def select_dev_def)

lemma split1_no_sep: "c \<notin> set s \<Longrightarrow> split1 c s = [s]"
  by (simp add: split1_def)

lemma parse_params_Inr_tokens:
  "parse_params float_of ts ps lg = (lg', Inr ps') \<Longrightarrow> t \<in> set ts \<Longrightarrow>
     strip t = [] \<or>
     (\<exists>key value v. split1 CHR ''='' (strip t) = [key, value] \<and> float_of value = Some v)"
proof (induction ts arbitrary: ps lg)
  case Nil
  then show ?case by simp
next
  case (Cons x ts)
  show ?case
  proof (cases "strip x = []")
    case True
    with Cons.prems have "parse_params float_of ts ps lg = (lg', Inr ps')" by simp
    from Cons.IH [OF this] Cons.prems(2) True show ?thesis by auto
  next
    case False
    with Cons.prems(1) obtain key val v lg1 where
      x: "split1 CHR ''='' (strip x) = [key, val]" "float_of val = Some v" and
      r: "parse_params float_of ts (AList.update key v ps) lg1 = (lg', Inr ps')"
      by (auto simp: Let_def split: list.splits option.splits if_splits)
    from Cons.IH [OF r] x Cons.prems(2) show ?thesis by auto
  qed
qed

lemma load_devices_Inr_entries:
  "load_devices float_of items devs lg = (lg', Inr devs') \<Longrightarrow> (k, str) \<in> set items \<Longrightarrow>
     \<exists>lg0 lg1 ps. parse_params float_of (split CHR '','' str) default_params lg0 = (lg1, Inr ps)"
proof (induction items arbitrary: devs lg)
  case Nil
  then show ?case by simp
next
  case (Cons it items)
  obtain k0 str0 where it: "it = (k0, str0)" by (cases it)
  from Cons.prems(1) it obtain lg1 ps where
    p: "parse_params float_of (split CHR '','' str0) default_params lg = (lg1, Inr ps)" and
    r: "load_devices float_of items (AList.update k0 ps devs) lg1 = (lg', Inr devs')"
    by (auto split: prod.splits sum.splits)
  from Cons.prems(2) it consider "(k, str) = (k0, str0)" | "(k, str) \<in> set items" by auto
  then show ?case
  proof cases
    case 1
    with p show ?thesis by blast
  next
    case 2
    from Cons.IH [OF r 2] show ?thesis .
  qed
qed

lemma init_Inr_tokens:
  assumes "snd (init float_of pm (Some items)) = Inr st"
    and "(k, str) \<in> set items" and "t \<in> set (split CHR '','' str)"
  shows "strip t = [] \<or>
     (\<exists>key value v. split1 CHR ''='' (strip t) = [key, value] \<and> float_of value = Some v)"
proof -
  from assms(1) obtain lg devs where "load_devices float_of items [] [] = (lg, Inr devs)"
    by (auto simp: init_def split: prod.splits sum.splits)
  from load_devices_Inr_entries [OF this assms(2)] obtain lg0 lg1 ps where
    "parse_params float_of (split CHR '','' str) default_params lg0 = (lg1, Inr ps)"
    by blast
  from parse_params_Inr_tokens [OF this assms(3)] show ?thesis .
qed

lemma init_first_failure:
  assumes "load_devices float_of pre [] [] = (lg1, Inr devs1)"
    and "split CHR '','' params_str = ts1 @ t # ts2"
    and "parse_params float_of ts1 default_params lg1 = (lg2, Inr ps1)"
    and "parse_params float_of [t] ps1 lg2 = (lg3, Inl e)"
  shows "init float_of pm (Some (pre @ (device_key, params_str) # post)) = (lg3, Inl e)"
proof -
  have "parse_params float_of (t # ts2) ps1 lg2 = (lg3, Inl e)"
    using assms(4) parse_params_append [of float_of "[t]" ts2 ps1 lg2] by simp
  then have "parse_params float_of (split CHR '','' params_str) default_params lg1 = (lg3, Inl e)"
    by (simp add: assms(2,3) parse_params_append)
  then have "load_devices float_of ((device_key, params_str) # post) devs1 lg1 = (lg3, Inl e)"
    by simp
  then have "load_devices float_of (pre @ (device_key, params_str) # post) [] [] = (lg3, Inl e)"
    by (simp add: load_devices_append assms(1))
  then show ?thesis by (simp add: init_def)
qed

lemmas init_defs = init_def decimal_float_examples strip_def isspace_def split1_def
  default_params_def valid_keys_def invalid_key_msg_def

lemma init_some_failure:
  assumes "(device_key, params_str) \<in> set items" and "t \<in> set (split CHR '','' params_str)"
    and "strip t \<noteq> []"
    and "\<not> (\<exists>key val v. split1 CHR ''='' (strip t) = [key, val] \<and> float_of val = Some v)"
  shows "\<exists>lg e. init float_of pm (Some items) = (lg, Inl e)"
proof (cases "init float_of pm (Some items)")
  case (Pair lg r)
  show ?thesis
  proof (cases r)
    case (Inl e)
    with Pair show ?thesis by blast
  next
    case (Inr st)
    with Pair have "snd (init float_of pm (Some items)) = Inr st" by simp
    from init_Inr_tokens [OF this assms(1,2)] assms(3,4) show ?thesis by blast
  qed
qed

lemma map_of_canonical_params:
  "k \<in> set valid_keys \<Longrightarrow> map_of (canonical_params ps) k = map_of ps k"
  by (induction ps) (auto simp: canonical_params_def)

lemma getitem_canonical_params:
  "k \<in> set valid_keys \<Longrightarrow> getitem (canonical_params ps) k = getitem ps k"
  by (simp add: getitem_def map_of_canonical_params)

lemma map_of_canonical_table:
  "map_of (canonical_table devs) k = map_option canonical_params (map_of devs k)"
  by (induction devs) (auto simp: canonical_table_def)

lemma getitem_canonical_table:
  "getitem (canonical_table devs) k = map_sum id canonical_params (getitem devs k)"
  by (simp add: getitem_def map_of_canonical_table split: option.splits)

lemma has_key_canonical_table: "has_key (canonical_table devs) k = has_key devs k"
  by (force simp: has_key_def canonical_table_def)

lemma get_provider_key_items_canonical:
  "get_provider_key_items (canonical_table devs) e pm = get_provider_key_items devs e pm"
  by (induction devs e pm rule: get_provider_key_items.induct)
     (simp_all add: has_key_canonical_table Let_def)

lemma select_dev_canonical: "select_dev (canonical_stage st) e = select_dev st e"
  by (simp add: select_dev_def get_provider_key_def canonical_stage_def
        has_key_canonical_table get_provider_key_items_canonical split: option.splits)

lemma calibrate_event_canonical:
  "calibrate_event (canonical_stage st) fr e = calibrate_event st fr e"
proof (cases "select_dev st e")
  case None
  then show ?thesis by (simp add: calibrate_event_def select_dev_canonical)
next
  case (Some dev)
  then have c: "select_dev (canonical_stage st) e = Some dev" by (simp add: select_dev_canonical)
  have v: "''xratio'' \<in> set valid_keys" "''xoffset'' \<in> set valid_keys"
    "''yratio'' \<in> set valid_keys" "''yoffset'' \<in> set valid_keys"
    by (simp_all add: valid_keys_def)
  have d: "getitem (devices (canonical_stage st)) dev =
             map_sum id canonical_params (getitem (devices st) dev)"
    by (simp add: canonical_stage_def getitem_canonical_table)
  show ?thesis
  proof (cases "getitem (devices st) dev")
    case (Inl x)
    with Some c d show ?thesis by (simp add: calibrate_event_def)
  next
    case (Inr ps)
    with Some c d show ?thesis
      by (simp add: calibrate_event_def getitem_canonical_params v split: sum.splits)
  qed
qed

lemma process_events_canonical:
  "process_events ((canonical_stage st)\<lparr>frame := f\<rparr>) fr events s =
     process_events (st\<lparr>frame := f\<rparr>) fr events s"
proof (induction events arbitrary: s)
  case Nil
  show ?case by simp
next
  case (Cons p events)
  have "process_event ((canonical_stage st)\<lparr>frame := f\<rparr>) fr p s =
        process_event (st\<lparr>frame := f\<rparr>) fr p s"
    by (cases p) (simp add: process_event_def calibrate_event_canonical)
  with Cons.IH show ?case by (simp split: sum.splits)
qed

lemma parse_params_keeps_key:
  "parse_params float_of ts ps lg = (lg', Inr ps') \<Longrightarrow>
     (has_key ps k \<longrightarrow> has_key ps' k) \<and> set lg \<subseteq> set lg'"
proof (induction ts arbitrary: ps lg)
  case Nil
  then show ?case by simp
next
  case (Cons x ts)
  show ?case
  proof (cases "strip x = []")
    case True
    with Cons.prems have "parse_params float_of ts ps lg = (lg', Inr ps')" by simp
    from Cons.IH [OF this] show ?thesis .
  next
    case False
    with Cons.prems(1) obtain key val v where
      r: "parse_params float_of ts (AList.update key v ps)
            (if key \<notin> set valid_keys then lg @ [invalid_key_msg key] else lg) = (lg', Inr ps')"
      by (auto simp: Let_def split: list.splits option.splits)
    from Cons.IH [OF r] show ?thesis by (auto simp: has_key_update split: if_splits)
  qed
qed

lemma parse_params_stores:
  "parse_params float_of ts ps lg = (lg', Inr ps') \<Longrightarrow> t \<in> set ts \<Longrightarrow>
   split1 CHR ''='' (strip t) = [key, value] \<Longrightarrow>
     has_key ps' key \<and> (key \<notin> set valid_keys \<longrightarrow> invalid_key_msg key \<in> set lg')"
proof (induction ts arbitrary: ps lg)
  case Nil
  then show ?case by simp
next
  case (Cons x ts)
  show ?case
  proof (cases "strip x = []")
    case True
    with Cons.prems have r: "parse_params float_of ts ps lg = (lg', Inr ps')" by simp
    from True Cons.prems(2,3) have "t \<in> set ts" by (auto simp: split1_def)
    from Cons.IH [OF r this Cons.prems(3)] show ?thesis .
  next
    case False
    with Cons.prems(1) obtain k val v where
      x: "split1 CHR ''='' (strip x) = [k, val]" and
      r: "parse_params float_of ts (AList.update k v ps)
            (if k \<notin> set valid_keys then lg @ [invalid_key_msg k] else lg) = (lg', Inr ps')"
      by (auto simp: Let_def split: list.splits option.splits)
    show ?thesis
    proof (cases "t \<in> set ts")
      case True
      from Cons.IH [OF r True Cons.prems(3)] show ?thesis .
    next
      case False
      with Cons.prems(2) have "t = x" by simp
      with x Cons.prems(3) have "k = key" by simp
      with parse_params_keeps_key [OF r, of key] show ?thesis
        by (auto simp: has_key_update)
    qed
  qed
qed

lemma invalid_key_not_canonical:
  "has_key ps key \<Longrightarrow> key \<notin> set valid_keys \<Longrightarrow> canonical_params ps \<noteq> ps"
proof
  assume h: "has_key ps key" "key \<notin> set valid_keys" "canonical_params ps = ps"
  from h(1) obtain v where "(key, v) \<in> set ps" by (auto simp: has_key_def)
  with h(3) have "(key, v) \<in> set (canonical_params ps)" by simp
  with h(2) show False by (simp add: canonical_params_def)
qed

lemma select_dev_no_devices: "devices st = [] \<Longrightarrow> select_dev st e = None"
proof (rule ccontr)
  assume d: "devices st = []" and "select_dev st e \<noteq> None"
  then obtain k where "select_dev st e = Some k" by auto
  from select_dev_has_key [OF this] d show False by (simp add: has_key_def)
qed

lemma process_complete:
  assumes "complete_table (devices st)"
  shows "\<exists>s'. process st events s = Inr (events, after_call st, s') \<and>
           (\<forall>b. if live events b
                then calibrate_event st (frame (after_call st)) (s b) = Inr (s' b)
                else s' b = s b)"
proof (cases "devices st = []")
  case True
  then have "process st events s = Inr (events, after_call st, s)"
    by (simp add: process_def after_call_def)
  moreover from True have "calibrate_event st fr (s b) = Inr (s b)" for fr b
    by (simp add: calibrate_event_unresolved select_dev_no_devices)
  ultimately show ?thesis by auto
next
  case False
  let ?st1 = "st\<lparr>frame := frame st + 1\<rparr>"
  from process_events_total [of ?st1 "frame st + 1" events s] assms
  obtain s' where pe: "process_events ?st1 (frame st + 1) events s = Inr s'" by auto
  with False have p: "process st events s = Inr (events, after_call st, s')"
    by (simp add: process_def Let_def after_call_def)
  have "if live events b then calibrate_event st (frame (after_call st)) (s b) = Inr (s' b)
        else s' b = s b" for b
    using process_events_once [OF pe, of b] False
    by (simp add: after_call_def split: if_splits)
  with p show ?thesis by blast
qed

section \<open>The claims\<close>

text \<open>
  C1, as amended. Take an object that occurs in the batch in a pair that is not an
  \<open>'end'\<close> pair, whose key \<open>dev\<close> is not the empty string and is bound in the table to
  an entry with the four parameters, and whose marker is not the frame of this call.
  Then \<open>process\<close> returns and leaves the object with
  \<open>sx' = sx * xratio + xoffset\<close>, \<open>sy' = sy * yratio + yoffset\<close> and the marker of
  this frame, where \<open>*\<close> and \<open>+\<close> are the operations of the float type, whatever they
  are. On doubles, the entry \<open>xratio=0.5, xoffset=0.1, yratio=2.0, yoffset=0.0\<close> takes
  \<open>(0.4, 0.3)\<close> to \<open>(0.30000000000000004, 0.6)\<close>.
\<close>

theorem process_applies_transform:
  assumes "(etype, a) \<in> set events" and "etype \<noteq> ''end''"
    and "select_dev st (s a) = Some dev" and "dev \<noteq> []"
    and "map_of (devices st) dev = Some ps"
    and "map_of ps ''xratio'' = Some xr" and "map_of ps ''xoffset'' = Some xo"
    and "map_of ps ''yratio'' = Some yr" and "map_of ps ''yoffset'' = Some yo"
    and "ud (s a) calibration_frame \<noteq> Some (frame st + 1)"
    and "complete_table (devices st)"
  shows "\<exists>s'. process st events s = Inr (events, st\<lparr>frame := frame st + 1\<rparr>, s') \<and>
              s' a = (s a)\<lparr>sx := sx (s a) * xr + xo, sy := sy (s a) * yr + yo,
                            ud := (ud (s a))(calibration_frame := Some (frame st + 1))\<rparr>"
proof -
  from assms(5) have ne: "devices st \<noteq> []" by auto
  from assms(1,2) have l: "live events a" by (force simp: live_def list_ex_iff)
  from process_events_total [of "st\<lparr>frame := frame st + 1\<rparr>" "frame st + 1" events s] assms(11)
  obtain s' where pe: "process_events (st\<lparr>frame := frame st + 1\<rparr>) (frame st + 1) events s = Inr s'"
    by auto
  with ne have p: "process st events s = Inr (events, st\<lparr>frame := frame st + 1\<rparr>, s')"
    by (simp add: process_def Let_def)
  from process_live [OF p l ne]
  have "calibrate_event st (frame st + 1) (s a) = Inr (s' a)" by simp
  with calibrate_event_apply [OF assms(3-10)] p show ?thesis by simp
qed

theorem process_applies_transform_witness:
  "\<exists>s'. process example_stage [(''update'', 0)] example_store =
           Inr ([(''update'', 0)], example_stage\<lparr>frame := 1\<rparr>, s') \<and>
         sx (s' 0) = round_double (30000000000000004 / 100000000000000000) \<and>
         sy (s' 0) = round_double (3 / 5)"
proof -
  let ?ps = "[(''xoffset'', round_double (1 / 10)), (''yoffset'', Finite 0),
              (''xratio'', Finite (1 / 2)), (''yratio'', Finite 2)]"
  have c: "complete_table (devices example_stage)"
    by (simp add: example_stage_def complete_table_def complete_params_def valid_keys_def
                  has_key_def)
  have d: "select_dev example_stage (example_store 0) = Some ''left''"
    by (simp add: select_dev_def example_stage_def example_store_def example_event_def
          has_key_def)
  have m: "map_of (devices example_stage) ''left'' = Some ?ps"
    by (simp add: example_stage_def)
  have u: "ud (example_store 0) calibration_frame \<noteq> Some (frame example_stage + 1)"
    by (simp add: example_store_def example_event_def)
  from process_applies_transform [of "''update''" 0 "[(''update'', 0)]" example_stage
         example_store "''left''" ?ps "Finite (1 / 2)" "round_double (1 / 10)" "Finite 2"
         "Finite 0", OF _ _ d _ m _ _ _ _ u c]
  obtain s' where
    p: "process example_stage [(''update'', 0)] example_store =
       Inr ([(''update'', 0)], example_stage\<lparr>frame := frame example_stage + 1\<rparr>, s')" and
    q: "s' 0 = (example_store 0)
                 \<lparr>sx := sx (example_store 0) * Finite (1 / 2) + round_double (1 / 10),
                    sy := sy (example_store 0) * Finite 2 + Finite 0,
                    ud := (ud (example_store 0))
                            (calibration_frame := Some (frame example_stage + 1))\<rparr>"
    by auto
  from q have "sx (s' 0) = round_double (2 / 5) * Finite (1 / 2) + round_double (1 / 10)"
    and "sy (s' 0) = round_double (3 / 10) * Finite 2 + Finite 0"
    by (simp_all add: example_store_def example_event_def)
  then have "sx (s' 0) = round_double (30000000000000004 / 100000000000000000)"
    and "sy (s' 0) = round_double (3 / 5)"
    by (simp_all add: double_eval)
  moreover from p have "process example_stage [(''update'', 0)] example_store =
       Inr ([(''update'', 0)], example_stage\<lparr>frame := 1\<rparr>, s')"
    by (simp add: example_stage_def)
  ultimately show ?thesis by blast
qed

text \<open>
  C1 as stated fails twice. For the empty key: \<open>not dev\<close> holds for the empty string,
  so an event whose device id is the empty string, bound in the table, is skipped
  although its key resolves to an entry and it bears no marker. For the numbers of its
  example: \<open>0.4 * 0.5 + 0.1\<close> on doubles is not the double \<open>0.3\<close> but the next one
  above it; \<open>sy\<close> is the double \<open>0.6\<close>.
\<close>

theorem empty_key_counterexample:
  "select_dev empty_key_stage (empty_key_store 0) = Some [] \<and>
   map_of (devices empty_key_stage) [] =
     Some [(''xoffset'', 0), (''yoffset'', 0), (''xratio'', Finite 2), (''yratio'', 1)] \<and>
   ud (empty_key_store 0) calibration_frame = None \<and>
   process empty_key_stage [(''update'', 0)] empty_key_store =
     Inr ([(''update'', 0)], empty_key_stage\<lparr>frame := 1\<rparr>, empty_key_store) \<and>
   sx (empty_key_store 0) \<noteq> sx (empty_key_store 0) * Finite 2 + 0 \<and>
   sx (example_store 0) = round_double (2 / 5) \<and> sy (example_store 0) = round_double (3 / 10) \<and>
   process example_stage [(''update'', 0)] example_store =
     Inr ([(''update'', 0)], example_stage\<lparr>frame := 1\<rparr>, example_store_after) \<and>
   sx (example_store_after 0) \<noteq> round_double (3 / 10) \<and>
   sy (example_store_after 0) = round_double (3 / 5)"
proof -
  have 1: "select_dev empty_key_stage (empty_key_store 0) = Some []"
    "map_of (devices empty_key_stage) [] =
       Some [(''xoffset'', 0), (''yoffset'', 0), (''xratio'', Finite 2), (''yratio'', 1)]"
    "ud (empty_key_store 0) calibration_frame = None"
    by (simp_all add: select_dev_def has_key_def empty_key_stage_def empty_key_store_def
          example_event_def)
  have 2: "process empty_key_stage [(''update'', 0)] empty_key_store =
     Inr ([(''update'', 0)], empty_key_stage\<lparr>frame := 1\<rparr>, empty_key_store)"
    by (simp add: run_defs empty_key_stage_def empty_key_store_def example_event_def
          fun_eq_iff)
  have 3: "sx (empty_key_store 0) \<noteq> sx (empty_key_store 0) * Finite 2 + 0"
    by (simp add: empty_key_store_def example_event_def double_eval)
  have 4: "sx (example_store 0) = round_double (2 / 5)"
    "sy (example_store 0) = round_double (3 / 10)"
    by (simp_all add: example_store_def example_event_def)
  have 5: "process example_stage [(''update'', 0)] example_store =
     Inr ([(''update'', 0)], example_stage\<lparr>frame := 1\<rparr>, example_store_after)"
    by (simp add: run_defs example_stage_def example_store_def example_store_after_def
          example_event_after_def example_event_def double_eval)
  have 6: "sx (example_store_after 0) \<noteq> round_double (3 / 10)"
    "sy (example_store_after 0) = round_double (3 / 5)"
    by (simp_all add: example_store_after_def example_event_after_def double_eval)
  from 1 2 3 4 5 6 show ?thesis by blast
qed

text \<open>
  C2. For an event that reaches the marker test (its key \<open>dev\<close> is found and is not
  empty): without a marker it is transformed and marked with the current frame; with
  the marker of the current frame it is left alone; with the marker of an earlier frame
  it is transformed again and marked anew. Two calls of \<open>process\<close> in a row on the same
  batch are two frames, and the second call transforms the object again. Within one
  call every object ends either as it began or as one run of the loop body leaves it,
  however often it occurs in the batch.
\<close>

theorem process_once_per_frame:
  "(select_dev st e = Some dev \<and> dev \<noteq> [] \<and> map_of (devices st) dev = Some ps \<and>
    map_of ps ''xratio'' = Some xr \<and> map_of ps ''xoffset'' = Some xo \<and>
    map_of ps ''yratio'' = Some yr \<and> map_of ps ''yoffset'' = Some yo \<longrightarrow>
      (ud e calibration_frame = None \<longrightarrow>
         calibrate_event st fr e =
           Inr (e\<lparr>sx := sx e * xr + xo, sy := sy e * yr + yo,
                  ud := (ud e)(calibration_frame := Some fr)\<rparr>)) \<and>
      (ud e calibration_frame = Some fr \<longrightarrow> calibrate_event st fr e = Inr e) \<and>
      (ud e calibration_frame = Some f \<and> f < fr \<longrightarrow>
         calibrate_event st fr e =
           Inr (e\<lparr>sx := sx e * xr + xo, sy := sy e * yr + yo,
                  ud := (ud e)(calibration_frame := Some fr)\<rparr>)) \<and>
      (s a = e \<and> live events a \<and> complete_table (devices st) \<longrightarrow>
         (\<exists>s1 s2.
            process st events s = Inr (events, st\<lparr>frame := frame st + 1\<rparr>, s1) \<and>
            process (st\<lparr>frame := frame st + 1\<rparr>) events s1 =
              Inr (events, st\<lparr>frame := frame st + 2\<rparr>, s2) \<and>
            s2 a = (s1 a)\<lparr>sx := sx (s1 a) * xr + xo, sy := sy (s1 a) * yr + yo,
                           ud := (ud (s1 a))(calibration_frame := Some (frame st + 2))\<rparr>))) \<and>
   (complete_table (devices st) \<longrightarrow>
      (\<exists>s'. process st events s = Inr (events, after_call st, s') \<and>
            (\<forall>b. s' b = s b \<or>
                 calibrate_event st (frame (after_call st)) (s b) = Inr (s' b))))"
proof (intro conjI impI)
  assume r: "select_dev st e = Some dev \<and> dev \<noteq> [] \<and> map_of (devices st) dev = Some ps \<and>
    map_of ps ''xratio'' = Some xr \<and> map_of ps ''xoffset'' = Some xo \<and>
    map_of ps ''yratio'' = Some yr \<and> map_of ps ''yoffset'' = Some yo"
  {
    assume "ud e calibration_frame = None"
    with r show "calibrate_event st fr e =
           Inr (e\<lparr>sx := sx e * xr + xo, sy := sy e * yr + yo,
                  ud := (ud e)(calibration_frame := Some fr)\<rparr>)"
      by (simp add: calibrate_event_apply)
  next
    assume "ud e calibration_frame = Some fr"
    then show "calibrate_event st fr e = Inr e" by (rule calibrate_event_skip)
  next
    assume "ud e calibration_frame = Some f \<and> f < fr"
    with r show "calibrate_event st fr e =
           Inr (e\<lparr>sx := sx e * xr + xo, sy := sy e * yr + yo,
                  ud := (ud e)(calibration_frame := Some fr)\<rparr>)"
      by (simp add: calibrate_event_apply)
  next
    assume "s a = e \<and> live events a \<and> complete_table (devices st)"
    with r show "\<exists>s1 s2.
            process st events s = Inr (events, st\<lparr>frame := frame st + 1\<rparr>, s1) \<and>
            process (st\<lparr>frame := frame st + 1\<rparr>) events s1 =
              Inr (events, st\<lparr>frame := frame st + 2\<rparr>, s2) \<and>
            s2 a = (s1 a)\<lparr>sx := sx (s1 a) * xr + xo, sy := sy (s1 a) * yr + yo,
                           ud := (ud (s1 a))(calibration_frame := Some (frame st + 2))\<rparr>"
      using process_twice [where st=st and s=s and a=a and dev=dev and ps=ps and xr=xr
              and xo=xo and yr=yr and yo=yo and events=events]
      by simp
  }
next
  assume "complete_table (devices st)"
  then show "\<exists>s'. process st events s = Inr (events, after_call st, s') \<and>
            (\<forall>b. s' b = s b \<or>
                 calibrate_event st (frame (after_call st)) (s b) = Inr (s' b))"
    by (rule process_at_most_once)
qed

theorem process_once_per_frame_witness:
  "calibrate_event example_stage 1 example_event = Inr example_event_after \<and>
   calibrate_event example_stage 1 (example_event\<lparr>ud := [calibration_frame \<mapsto> 1]\<rparr>) =
     Inr (example_event\<lparr>ud := [calibration_frame \<mapsto> 1]\<rparr>) \<and>
   calibrate_event example_stage 1 (example_event\<lparr>ud := [calibration_frame \<mapsto> 0]\<rparr>) =
     Inr example_event_after \<and>
   (\<exists>s1 s2.
      process example_stage example_batch example_store =
        Inr (example_batch, example_stage\<lparr>frame := 1\<rparr>, s1) \<and>
      process (example_stage\<lparr>frame := 1\<rparr>) example_batch s1 =
        Inr (example_batch, example_stage\<lparr>frame := 2\<rparr>, s2) \<and>
      sx (s2 0) = sx (s1 0) * Finite (1 / 2) + round_double (1 / 10) \<and>
      sy (s2 0) = sy (s1 0) * Finite 2 + Finite 0) \<and>
   (\<exists>s'. process example_stage example_batch example_store =
           Inr (example_batch, example_stage\<lparr>frame := 1\<rparr>, s') \<and>
         (s' 0 = example_event \<or> s' 0 = example_event_after))"
proof -
  let ?ps = "[(''xoffset'', round_double (1 / 10)), (''yoffset'', Finite 0),
              (''xratio'', Finite (1 / 2)), (''yratio'', Finite 2)]"
  have s0: "example_store 0 = example_event" by (simp add: example_store_def)
  have d1: "select_dev example_stage (example_event\<lparr>ud := [calibration_frame \<mapsto> 1]\<rparr>) = Some ''left''"
    and d0: "select_dev example_stage (example_event\<lparr>ud := [calibration_frame \<mapsto> 0]\<rparr>) = Some ''left''"
    by (simp_all add: example_stage_def example_event_def has_key_def select_dev_def)
  have a: "after_call example_stage = example_stage\<lparr>frame := 1\<rparr>"
    by (simp add: after_call_def example_stage_facts)
  note t = process_once_per_frame [of example_stage example_event "''left''" ?ps
             "Finite (1 / 2)" "round_double (1 / 10)" "Finite 2" "Finite 0"
             1 0 example_store 0 example_batch]
  note t1 = process_once_per_frame [of example_stage "example_event\<lparr>ud := [calibration_frame \<mapsto> 1]\<rparr>"
             "''left''" ?ps "Finite (1 / 2)" "round_double (1 / 10)" "Finite 2" "Finite 0"
             1 0 example_store 0 example_batch]
  note t0 = process_once_per_frame [of example_stage "example_event\<lparr>ud := [calibration_frame \<mapsto> 0]\<rparr>"
             "''left''" ?ps "Finite (1 / 2)" "round_double (1 / 10)" "Finite 2" "Finite 0"
             1 0 example_store 0 example_batch]
  note after = example_event_after_eq
  have u: "ud example_event calibration_frame = None"
    "(ud example_event)(calibration_frame \<mapsto> 1) = [calibration_frame \<mapsto> 1]"
    by (simp_all add: example_event_def)
  have w1: "calibrate_event example_stage 1 example_event = Inr example_event_after"
    using t example_stage_facts u unfolding after by simp
  have w2: "calibrate_event example_stage 1 (example_event\<lparr>ud := [calibration_frame \<mapsto> 1]\<rparr>) =
     Inr (example_event\<lparr>ud := [calibration_frame \<mapsto> 1]\<rparr>)"
    using t1 example_stage_facts d1 by simp
  have w3: "calibrate_event example_stage 1 (example_event\<lparr>ud := [calibration_frame \<mapsto> 0]\<rparr>) =
     Inr example_event_after"
    using t0 example_stage_facts d0 unfolding after by simp
  have l: "live example_batch 0" by (simp add: live_def example_batch_def)
  have w4: "\<exists>s1 s2.
      process example_stage example_batch example_store =
        Inr (example_batch, example_stage\<lparr>frame := 1\<rparr>, s1) \<and>
      process (example_stage\<lparr>frame := 1\<rparr>) example_batch s1 =
        Inr (example_batch, example_stage\<lparr>frame := 2\<rparr>, s2) \<and>
      sx (s2 0) = sx (s1 0) * Finite (1 / 2) + round_double (1 / 10) \<and>
      sy (s2 0) = sy (s1 0) * Finite 2 + Finite 0"
  proof -
    from t example_stage_facts l s0 obtain s1 s2 where
      p1: "process example_stage example_batch example_store =
             Inr (example_batch, example_stage\<lparr>frame := 1\<rparr>, s1)" and
      p2: "process (example_stage\<lparr>frame := 1\<rparr>) example_batch s1 =
             Inr (example_batch, example_stage\<lparr>frame := 2\<rparr>, s2)" and
      q: "s2 0 = (s1 0)\<lparr>sx := sx (s1 0) * Finite (1 / 2) + round_double (1 / 10),
                      sy := sy (s1 0) * Finite 2 + Finite 0,
                      ud := (ud (s1 0))(calibration_frame := Some 2)\<rparr>"
      by auto
    from q [THEN arg_cong [where f = sx]] q [THEN arg_cong [where f = sy]]
    have "sx (s2 0) = sx (s1 0) * Finite (1 / 2) + round_double (1 / 10) \<and>
          sy (s2 0) = sy (s1 0) * Finite 2 + Finite 0"
      by simp
    with p1 p2 show ?thesis by blast
  qed
  have w5: "\<exists>s'. process example_stage example_batch example_store =
           Inr (example_batch, example_stage\<lparr>frame := 1\<rparr>, s') \<and>
         (s' 0 = example_event \<or> s' 0 = example_event_after)"
  proof -
    from t example_stage_facts(1) a obtain s' where
      p: "process example_stage example_batch example_store =
            Inr (example_batch, example_stage\<lparr>frame := 1\<rparr>, s')"
      and o: "\<forall>b. s' b = example_store b \<or>
                calibrate_event example_stage (frame (example_stage\<lparr>frame := 1\<rparr>))
                  (example_store b) = Inr (s' b)"
      by auto
    from o [THEN spec, of 0] w1 s0
    have "s' 0 = example_event \<or> s' 0 = example_event_after" by auto
    with p show ?thesis by blast
  qed
  from w1 w2 w3 w4 w5 show ?thesis by blast
qed

text \<open>
  C3. The key that \<open>process\<close> selects is the key of the specification's resolution:
  the explicit device id if it is bound in the table, else the parenthesised name of
  the first matching provider type. When no key is found the event is left as it is,
  by the loop body and by the whole call.
\<close>

theorem resolution_refines_spec:
  "select_dev st e = spec_resolve (devices st) (provider_map st) e \<and>
   (select_dev st e = None \<longrightarrow> calibrate_event st fr e = Inr e) \<and>
   (select_dev st (s a) = None \<and> process st events s = Inr (ev', st', s') \<longrightarrow> s' a = s a) \<and>
   (complete_table (devices st) \<longrightarrow>
      (\<exists>s'. process st events s = Inr (events, after_call st, s') \<and>
            (\<forall>b. select_dev st (s b) = None \<longrightarrow> s' b = s b)))"
proof (intro conjI impI)
  show "select_dev st e = spec_resolve (devices st) (provider_map st) e"
    by (simp add: select_dev_def spec_resolve_def get_provider_key_def
          get_provider_key_items_find has_key_def split: option.splits)
next
  assume "select_dev st e = None"
  then show "calibrate_event st fr e = Inr e" by (simp add: calibrate_event_unresolved)
next
  assume h: "select_dev st (s a) = None \<and> process st events s = Inr (ev', st', s')"
  then have "process st events s = Inr (ev', st', s')" by simp
  from process_Inr [OF this]
  have st': "st' = after_call st"
    and d: "s' = s \<or> process_events st' (frame st') events s = Inr s'"
    by blast+
  from d show "s' a = s a"
  proof
    assume "s' = s"
    then show ?thesis by simp
  next
    assume "process_events st' (frame st') events s = Inr s'"
    from process_events_once [OF this, of a] h st' show ?thesis
      by (simp add: calibrate_event_unresolved split: if_splits)
  qed
next
  assume "complete_table (devices st)"
  from process_complete [OF this, of events s] obtain s' where
    p: "process st events s = Inr (events, after_call st, s')" and
    o: "\<And>b. if live events b
              then calibrate_event st (frame (after_call st)) (s b) = Inr (s' b)
              else s' b = s b"
    by blast
  have "s' b = s b" if "select_dev st (s b) = None" for b
    using o [of b] that by (simp add: calibrate_event_unresolved split: if_splits)
  with p show "\<exists>s'. process st events s = Inr (events, after_call st, s') \<and>
            (\<forall>b. select_dev st (s b) = None \<longrightarrow> s' b = s b)"
    by blast
qed

theorem resolution_refines_spec_witness:
  "select_dev provider_stage example_event = Some ''(mtdev)'' \<and>
   spec_resolve (devices provider_stage) (provider_map provider_stage) example_event =
     Some ''(mtdev)'' \<and>
   select_dev provider_stage mouse_event = None \<and>
   calibrate_event provider_stage 1 mouse_event = Inr mouse_event \<and>
   process provider_stage [(''update'', 0)] (\<lambda>a. mouse_event) =
     Inr ([(''update'', 0)], provider_stage\<lparr>frame := 1\<rparr>, \<lambda>a. mouse_event)"
proof -
  have 1: "select_dev provider_stage example_event = Some ''(mtdev)''"
    by (simp add: select_dev_def get_provider_key_def provider_stage_def example_event_def
          has_key_def isinstance_def)
  have 2: "select_dev provider_stage mouse_event = None"
    by (simp add: select_dev_def get_provider_key_def provider_stage_def mouse_event_def
          has_key_def isinstance_def)
  have 3: "complete_table (devices provider_stage)"
    "after_call provider_stage = provider_stage\<lparr>frame := 1\<rparr>"
    by (simp_all add: provider_stage_def complete_table_def complete_params_def valid_keys_def
          has_key_def after_call_def)
  note t = resolution_refines_spec [of provider_stage _ 1 "\<lambda>a. mouse_event" 0
         "[(''update'', 0)]" "[(''update'', 0)]" "provider_stage\<lparr>frame := 1\<rparr>" "\<lambda>a. mouse_event"]
  from t [of mouse_event] 2 3 obtain s' where
    p: "process provider_stage [(''update'', 0)] (\<lambda>a. mouse_event) =
          Inr ([(''update'', 0)], provider_stage\<lparr>frame := 1\<rparr>, s')"
    and u: "\<forall>b. s' b = mouse_event"
    by auto
  from u have "s' = (\<lambda>a. mouse_event)" by (simp add: fun_eq_iff)
  with p have 4: "process provider_stage [(''update'', 0)] (\<lambda>a. mouse_event) =
     Inr ([(''update'', 0)], provider_stage\<lparr>frame := 1\<rparr>, \<lambda>a. mouse_event)"
    by simp
  from t [of example_event] t [of mouse_event] 1 2 4 show ?thesis by simp
qed

text \<open>
  C4. With an empty table \<open>process\<close> returns the batch it was given and leaves the
  stage (the frame counter too) and every event as they were. With a table that is not
  empty the call adds one to the frame counter; the constructor sets the counter to 0.
  A configuration with no section, or with an empty section, gives the empty table.
\<close>

theorem process_empty_table:
  "(devices st = [] \<longrightarrow> process st events s = Inr (events, st, s)) \<and>
   (devices st \<noteq> [] \<and> complete_table (devices st) \<longrightarrow>
      (\<exists>s'. process st events s = Inr (events, st\<lparr>frame := frame st + 1\<rparr>, s'))) \<and>
   (snd (init float_of pm config) = Inr st0 \<longrightarrow> frame st0 = 0) \<and>
   (snd (init float_of pm config) = Inr st0 \<and> (config = None \<or> config = Some []) \<longrightarrow>
      process st0 events s = Inr (events, st0, s))"
proof (intro conjI impI)
  assume "devices st = []"
  then show "process st events s = Inr (events, st, s)" by (simp add: process_def)
next
  assume a: "devices st \<noteq> [] \<and> complete_table (devices st)"
  then have "complete_table (devices (st\<lparr>frame := frame st + 1\<rparr>))" by simp
  from process_events_total [OF this, of "frame st + 1" events s] a
  show "\<exists>s'. process st events s = Inr (events, st\<lparr>frame := frame st + 1\<rparr>, s')"
    by (auto simp: process_def Let_def)
next
  assume "snd (init float_of pm config) = Inr st0"
  then show "frame st0 = 0" by (simp add: init_stage)
next
  assume "snd (init float_of pm config) = Inr st0 \<and> (config = None \<or> config = Some [])"
  then have "devices st0 = []" by (auto simp: init_def)
  then show "process st0 events s = Inr (events, st0, s)" by (simp add: process_def)
qed

theorem process_empty_table_witness:
  "process unconfigured_stage [(''update'', 0)] (\<lambda>a. example_event) =
     Inr ([(''update'', 0)], unconfigured_stage, \<lambda>a. example_event) \<and>
   (\<exists>s'. process example_stage [(''update'', 0)] (\<lambda>a. example_event) =
      Inr ([(''update'', 0)], example_stage\<lparr>frame := 1\<rparr>, s')) \<and>
   frame (projr (snd (init decimal_float [] None))) = 0 \<and>
   process (projr (snd (init decimal_float [] None))) [(''update'', 0)] (\<lambda>a. example_event) =
     Inr ([(''update'', 0)], projr (snd (init decimal_float [] None)), \<lambda>a. example_event)"
proof -
  have e: "devices unconfigured_stage = []" by (simp add: unconfigured_stage_def)
  have c: "devices example_stage \<noteq> [] \<and> complete_table (devices example_stage)"
    by (simp add: example_stage_def complete_table_def complete_params_def valid_keys_def
                  has_key_def)
  have i: "snd (init decimal_float [] None) = Inr (projr (snd (init decimal_float [] None)))"
    by (simp add: init_def)
  have f: "frame example_stage = 0" by (simp add: example_stage_def)
  show ?thesis
    using process_empty_table [of unconfigured_stage "[(''update'', 0)]" "\<lambda>a. example_event"
            decimal_float "[]" None "projr (snd (init decimal_float [] None))"]
          process_empty_table [of example_stage "[(''update'', 0)]" "\<lambda>a. example_event"
            decimal_float "[]" None "projr (snd (init decimal_float [] None))"]
          e c i f
    by simp
qed

text \<open>
  C5, as amended. A value that \<open>float\<close> rejects, given for one of the four field names,
  ends the constructor with the ValueError of \<open>float\<close>: no table is built, whatever
  the other tokens and entries are. When the token is the first one to fail, the
  entries before it and the fields of its own entry before it were read without error,
  and the exception is still the outcome.
\<close>

theorem init_bad_value_aborts:
  "((device_key, params_str) \<in> set items \<and> t \<in> set (split CHR '','' params_str) \<and>
    split1 CHR ''='' (strip t) = [key, value] \<and> key \<in> set valid_keys \<and>
    float_of value = None \<longrightarrow>
      (\<exists>lg e. init float_of pm (Some items) = (lg, Inl e))) \<and>
   (load_devices float_of pre [] [] = (lg1, Inr devs1) \<and>
    split CHR '','' params_str = ts1 @ t # ts2 \<and>
    parse_params float_of ts1 default_params lg1 = (lg2, Inr ps1) \<and>
    split1 CHR ''='' (strip t) = [key, value] \<and> key \<in> set valid_keys \<and>
    float_of value = None \<longrightarrow>
      init float_of pm (Some (pre @ (device_key, params_str) # post)) =
        (lg2, Inl (CouldNotConvert value)))"
proof (intro conjI impI)
  assume h: "(device_key, params_str) \<in> set items \<and> t \<in> set (split CHR '','' params_str) \<and>
    split1 CHR ''='' (strip t) = [key, value] \<and> key \<in> set valid_keys \<and>
    float_of value = None"
  then have ne: "strip t \<noteq> []" by (auto simp: split1_def)
  from h have "\<not> (\<exists>k val v. split1 CHR ''='' (strip t) = [k, val] \<and> float_of val = Some v)"
    by simp
  with h ne show "\<exists>lg e. init float_of pm (Some items) = (lg, Inl e)"
    by (intro init_some_failure [of device_key params_str items t]) simp_all
next
  assume h: "load_devices float_of pre [] [] = (lg1, Inr devs1) \<and>
    split CHR '','' params_str = ts1 @ t # ts2 \<and>
    parse_params float_of ts1 default_params lg1 = (lg2, Inr ps1) \<and>
    split1 CHR ''='' (strip t) = [key, value] \<and> key \<in> set valid_keys \<and>
    float_of value = None"
  then have ne: "strip t \<noteq> []" by (auto simp: split1_def)
  with h have "parse_params float_of [t] ps1 lg2 = (lg2, Inl (CouldNotConvert value))"
    by simp
  with h show "init float_of pm (Some (pre @ (device_key, params_str) # post)) =
        (lg2, Inl (CouldNotConvert value))"
    by (intro init_first_failure [of float_of pre lg1 devs1 params_str ts1 t ts2 lg2 ps1]) simp_all
qed

theorem init_bad_value_aborts_witness:
  "(\<exists>lg e. init decimal_float []
       (Some [(''left'', ''xratio=0.5''), (''middle'', ''yratio=2.0,xratio=notanumber,xoffset=0.1''),
              (''right'', ''xoffset=0.5'')]) = (lg, Inl e)) \<and>
   init decimal_float []
       (Some ([(''left'', ''xratio=0.5'')] @
              (''middle'', ''yratio=2.0,xratio=notanumber,xoffset=0.1'') #
              [(''right'', ''xoffset=0.5'')])) = ([], Inl (CouldNotConvert ''notanumber''))"
proof -
  let ?items = "[(''left'', ''xratio=0.5''), (''middle'', ''yratio=2.0,xratio=notanumber,xoffset=0.1''),
              (''right'', ''xoffset=0.5'')]"
  have 1: "(''middle'', ''yratio=2.0,xratio=notanumber,xoffset=0.1'') \<in> set ?items" by simp
  have 2: "split CHR '','' ''yratio=2.0,xratio=notanumber,xoffset=0.1'' =
             [''yratio=2.0''] @ ''xratio=notanumber'' # [''xoffset=0.1'']" by simp
  have 3: "''xratio=notanumber'' \<in> set (split CHR '','' ''yratio=2.0,xratio=notanumber,xoffset=0.1'')"
    by simp
  have 4: "split1 CHR ''='' (strip ''xratio=notanumber'') = [''xratio'', ''notanumber'']"
    by (simp add: strip_def isspace_def split1_def)
  have 5: "load_devices decimal_float [(''left'', ''xratio=0.5'')] [] [] =
             ([], Inr [(''left'', [(''xoffset'', 0), (''yoffset'', 0), (''xratio'', Finite (1 / 2)), (''yratio'', 1)])])"
    by (simp add: init_defs)
  have 6: "parse_params decimal_float [''yratio=2.0''] default_params [] =
             ([], Inr [(''xoffset'', 0), (''yoffset'', 0), (''xratio'', 1), (''yratio'', Finite 2)])"
    by (simp add: init_defs)
  have 7: "''xratio'' \<in> set valid_keys" by (simp add: valid_keys_def)
  have 8: "decimal_float ''notanumber'' = None"
    by (simp add: decimal_float_examples)
  from init_bad_value_aborts [of "''middle''" "''yratio=2.0,xratio=notanumber,xoffset=0.1''"
         ?items "''xratio=notanumber''" "''xratio''" "''notanumber''"
         decimal_float "[]" "[(''left'', ''xratio=0.5'')]" "[]"
         "[(''left'', [(''xoffset'', 0), (''yoffset'', 0), (''xratio'', Finite (1 / 2)), (''yratio'', 1)])]"
         "[''yratio=2.0'']" "[''xoffset=0.1'']" "[]"
         "[(''xoffset'', 0), (''yoffset'', 0), (''xratio'', 1), (''yratio'', Finite 2)]"
         "[(''right'', ''xoffset=0.5'')]"]
       1 2 3 4 5 6 7 8
  show ?thesis by simp
qed

text \<open>
  C5 as stated fails: the exception leaves the constructor, so the entry is not kept
  with its earlier fields, and the entries after it are not read.
\<close>

theorem bad_value_counterexample:
  "init decimal_float []
     (Some [(''left'', ''yratio=2.0,xratio=notanumber,xoffset=0.1''), (''middle'', ''xratio=0.3333'')]) =
   ([], Inl (CouldNotConvert ''notanumber''))"
  by (simp add: init_defs)

text \<open>
  C6. The constructor at the token \<open>foo=bar\<close>: the unknown name is logged, the value
  is still given to \<open>float\<close>, and the ValueError ends the constructor. The token is
  not skipped, the entry is not completed and the next entry is not read.
\<close>

theorem unknown_key_bad_value_raises:
  "init decimal_float []
     (Some [(''left'', ''xratio=0.5,foo=bar,yratio=2.0''), (''middle'', ''xratio=0.3333'')]) =
   ([''Calibration: invalid key provided: foo''], Inl (CouldNotConvert ''bar''))"
  by (simp add: init_defs)

text \<open>
  C7. A pair of type \<open>'end'\<close> is passed over whatever the table holds, even a table
  whose entries lack parameters: a batch of such pairs leaves the store as it was, and
  an object that occurs in \<open>'end'\<close> pairs only is returned as it was.
\<close>

theorem process_end_untouched:
  "process_event st fr (''end'', a) s = Inr s \<and>
   (list_all (\<lambda>p. fst p = ''end'') events \<longrightarrow>
      process st events s = Inr (events, after_call st, s)) \<and>
   (\<not> live events a \<and> process st events s = Inr (ev', st', s') \<longrightarrow> s' a = s a) \<and>
   (complete_table (devices st) \<longrightarrow>
      (\<exists>s'. process st events s = Inr (events, after_call st, s') \<and>
            (\<forall>b. \<not> live events b \<longrightarrow> s' b = s b)))"
proof (intro conjI impI)
  show "process_event st fr (''end'', a) s = Inr s" by (rule process_event_end)
next
  assume "list_all (\<lambda>p. fst p = ''end'') events"
  then show "process st events s = Inr (events, after_call st, s)"
    by (simp add: process_def after_call_def Let_def process_events_all_end)
next
  assume a: "\<not> live events a \<and> process st events s = Inr (ev', st', s')"
  then have "process st events s = Inr (ev', st', s')" by simp
  from process_Inr [OF this]
  have "s' = s \<or> process_events st' (frame st') events s = Inr s'" by blast
  then show "s' a = s a"
  proof
    assume "s' = s"
    then show ?thesis by simp
  next
    assume "process_events st' (frame st') events s = Inr s'"
    from process_events_once [OF this, of a] a show ?thesis by simp
  qed
next
  assume "complete_table (devices st)"
  from process_complete [OF this, of events s] obtain s' where
    p: "process st events s = Inr (events, after_call st, s')" and
    o: "\<And>b. if live events b
              then calibrate_event st (frame (after_call st)) (s b) = Inr (s' b)
              else s' b = s b"
    by blast
  from o have "\<forall>b. \<not> live events b \<longrightarrow> s' b = s b" by (auto split: if_splits)
  with p show "\<exists>s'. process st events s = Inr (events, after_call st, s') \<and>
            (\<forall>b. \<not> live events b \<longrightarrow> s' b = s b)"
    by blast
qed

theorem process_end_untouched_witness:
  "process incomplete_stage [(''end'', 0), (''end'', 1), (''end'', 0)] example_store =
     Inr ([(''end'', 0), (''end'', 1), (''end'', 0)], incomplete_stage\<lparr>frame := 1\<rparr>,
          example_store) \<and>
   (\<exists>s'. process example_stage [(''end'', 0), (''update'', 1)] example_store =
           Inr ([(''end'', 0), (''update'', 1)], example_stage\<lparr>frame := 1\<rparr>, s') \<and>
         s' 0 = example_event \<and> s' 1 = example_event_after)"
proof -
  let ?s1 = "example_store(1 := example_event_after)"
  let ?b = "[(''end'', 0::nat), (''update'', 1)]"
  have 1: "list_all (\<lambda>p. fst p = ''end'') [(''end'', 0::nat), (''end'', 1), (''end'', 0)]"
    by simp
  have 2: "\<not> live ?b 0" by (simp add: live_def)
  have 3: "after_call incomplete_stage = incomplete_stage\<lparr>frame := 1\<rparr>"
    "after_call example_stage = example_stage\<lparr>frame := 1\<rparr>"
    by (simp_all add: after_call_def incomplete_stage_def example_stage_def)
  have 4: "process example_stage ?b example_store =
             Inr (?b, example_stage\<lparr>frame := 1\<rparr>, ?s1)"
    unfolding example_event_after_eq
    by (simp add: process_def process_event_def calibrate_event_def select_dev_def
          has_key_def getitem_def example_stage_def example_store_def example_event_def
          Let_def)
  have 5: "process incomplete_stage [(''end'', 0), (''end'', 1), (''end'', 0)] example_store =
     Inr ([(''end'', 0), (''end'', 1), (''end'', 0)], incomplete_stage\<lparr>frame := 1\<rparr>,
          example_store)"
    using process_end_untouched [of incomplete_stage 0 0 example_store
            "[(''end'', 0), (''end'', 1), (''end'', 0)]"] 1 3
    by simp
  note t = process_end_untouched [of example_stage 0 0 example_store ?b ?b
            "example_stage\<lparr>frame := 1\<rparr>" ?s1]
  have 6: "?s1 0 = example_event" using t 2 4 by (simp add: example_store_def)
  from t example_stage_facts(1) 3 obtain s' where
    p: "process example_stage ?b example_store = Inr (?b, example_stage\<lparr>frame := 1\<rparr>, s')"
    and u: "\<forall>b. \<not> live ?b b \<longrightarrow> s' b = example_store b"
    by auto
  from p 4 have "s' = ?s1" by simp
  with p u 2 have "process example_stage ?b example_store =
                     Inr (?b, example_stage\<lparr>frame := 1\<rparr>, s') \<and>
                   s' 0 = example_event \<and> s' 1 = example_event_after"
    by (simp add: example_store_def)
  with 5 show ?thesis by blast
qed

text \<open>
  C8. On a complete table \<open>process\<close> returns, and what it returns is the batch it was
  given: the same pairs in the same order, the empty batch included. The table and the
  provider map are unchanged, and an event differs from what it was at most in
  \<open>sx\<close>, \<open>sy\<close> and the marker.
\<close>

theorem process_preserves_batch:
  "(complete_table (devices st) \<longrightarrow>
      (\<exists>s'. process st events s = Inr (events, after_call st, s'))) \<and>
   process st [] s = Inr ([], after_call st, s) \<and>
   (process st events s = Inr (ev', st', s') \<longrightarrow>
      ev' = events \<and> length ev' = length events \<and>
      devices st' = devices st \<and> provider_map st' = provider_map st \<and>
      (\<forall>a. s' a = (s a)\<lparr>sx := sx (s' a), sy := sy (s' a),
                           ud := (ud (s a))(calibration_frame := ud (s' a) calibration_frame)\<rparr>))"
proof (intro conjI impI)
  assume c: "complete_table (devices st)"
  then have "complete_table (devices (after_call st))" by (auto simp: after_call_def)
  from process_events_total [OF this, of "frame st + 1" events s]
  show "\<exists>s'. process st events s = Inr (events, after_call st, s')"
    by (auto simp: process_def after_call_def Let_def)
next
  show "process st [] s = Inr ([], after_call st, s)"
    by (simp add: process_def after_call_def Let_def)
next
  assume p: "process st events s = Inr (ev', st', s')"
  note q = process_Inr [OF p]
  from q show "ev' = events" by simp
  from q show "length ev' = length events" by simp
  from q show "devices st' = devices st" by (simp add: after_call_def)
  from q show "provider_map st' = provider_map st" by (simp add: after_call_def)
  from q have "s' = s \<or> process_events st' (frame st') events s = Inr s'" by blast
  then show "\<forall>a. s' a = (s a)\<lparr>sx := sx (s' a), sy := sy (s' a),
                           ud := (ud (s a))(calibration_frame := ud (s' a) calibration_frame)\<rparr>"
  proof
    assume "s' = s"
    then show ?thesis by simp
  next
    assume "process_events st' (frame st') events s = Inr s'"
    then show ?thesis by (blast intro: process_events_fields)
  qed
qed

theorem process_preserves_batch_witness:
  "\<exists>s'. process example_stage example_batch (\<lambda>a. example_event) =
           Inr (example_batch, example_stage\<lparr>frame := 1\<rparr>, s') \<and>
         (\<forall>a. device (s' a) = Some ''left'' \<and> classes (s' a) = classes example_event)"
proof -
  from process_preserves_batch [of example_stage example_batch "\<lambda>a. example_event"]
    example_stage_facts(1)
  obtain s' where p: "process example_stage example_batch (\<lambda>a. example_event) =
      Inr (example_batch, after_call example_stage, s')"
    by blast
  from process_preserves_batch [of example_stage example_batch "\<lambda>a. example_event"
         example_batch "after_call example_stage" s'] p
  have q: "s' a = example_event\<lparr>sx := sx (s' a), sy := sy (s' a),
              ud := (ud example_event)(calibration_frame := ud (s' a) calibration_frame)\<rparr>" for a
    by blast
  have "device (s' a) = Some ''left'' \<and> classes (s' a) = classes example_event" for a
    using q [of a, THEN arg_cong [where f = device]] q [of a, THEN arg_cong [where f = classes]]
    by (simp add: example_event_def)
  then have "\<forall>a. device (s' a) = Some ''left'' \<and> classes (s' a) = classes example_event"
    by blast
  moreover have "after_call example_stage = example_stage\<lparr>frame := 1\<rparr>"
    by (simp add: after_call_def example_stage_facts)
  ultimately show ?thesis using p by auto
qed

text \<open>
  C9. A token that is not empty after \<open>strip\<close> and has no \<open>=\<close> makes the constructor
  end with an exception, wherever it stands in the configuration. When it is the first
  token to fail, the exception is the ValueError of the unpacking
  \<open>key, value = param.split('=', 1)\<close>; the entries read before it are lost with the
  table and the entries after it are not read.
\<close>

theorem init_token_without_equals:
  "((device_key, params_str) \<in> set items \<and> t \<in> set (split CHR '','' params_str) \<and>
    strip t \<noteq> [] \<and> CHR ''='' \<notin> set (strip t) \<longrightarrow>
      (\<exists>lg e. init float_of pm (Some items) = (lg, Inl e))) \<and>
   (load_devices float_of pre [] [] = (lg1, Inr devs1) \<and>
    split CHR '','' params_str = ts1 @ t # ts2 \<and>
    parse_params float_of ts1 default_params lg1 = (lg2, Inr ps1) \<and>
    strip t \<noteq> [] \<and> CHR ''='' \<notin> set (strip t) \<longrightarrow>
      init float_of pm (Some (pre @ (device_key, params_str) # post)) =
        (lg2, Inl NotEnoughValues))"
proof (intro conjI impI)
  assume h: "(device_key, params_str) \<in> set items \<and> t \<in> set (split CHR '','' params_str) \<and>
    strip t \<noteq> [] \<and> CHR ''='' \<notin> set (strip t)"
  then have "split1 CHR ''='' (strip t) = [strip t]" by (simp add: split1_no_sep)
  then have "\<not> (\<exists>key val v. split1 CHR ''='' (strip t) = [key, val] \<and> float_of val = Some v)"
    by simp
  with h show "\<exists>lg e. init float_of pm (Some items) = (lg, Inl e)"
    by (intro init_some_failure [of device_key params_str items t]) simp_all
next
  assume h: "load_devices float_of pre [] [] = (lg1, Inr devs1) \<and>
    split CHR '','' params_str = ts1 @ t # ts2 \<and>
    parse_params float_of ts1 default_params lg1 = (lg2, Inr ps1) \<and>
    strip t \<noteq> [] \<and> CHR ''='' \<notin> set (strip t)"
  then have "parse_params float_of [t] ps1 lg2 = (lg2, Inl NotEnoughValues)"
    by (simp add: split1_no_sep)
  with h show "init float_of pm (Some (pre @ (device_key, params_str) # post)) =
        (lg2, Inl NotEnoughValues)"
    by (intro init_first_failure [of float_of pre lg1 devs1 params_str ts1 t ts2 lg2 ps1]) simp_all
qed

theorem init_token_without_equals_witness:
  "(\<exists>lg e. init decimal_float []
       (Some [(''left'', ''xratio=0.5''), (''middle'', ''yratio=2.0,xratio''),
              (''right'', ''xoffset=0.5'')]) = (lg, Inl e)) \<and>
   init decimal_float []
       (Some ([(''left'', ''xratio=0.5'')] @ (''middle'', ''yratio=2.0,xratio'') #
              [(''right'', ''xoffset=0.5'')])) = ([], Inl NotEnoughValues)"
proof -
  let ?items = "[(''left'', ''xratio=0.5''), (''middle'', ''yratio=2.0,xratio''),
              (''right'', ''xoffset=0.5'')]"
  have 1: "(''middle'', ''yratio=2.0,xratio'') \<in> set ?items" by simp
  have 2: "split CHR '','' ''yratio=2.0,xratio'' = [''yratio=2.0''] @ ''xratio'' # []" by simp
  have 3: "''xratio'' \<in> set (split CHR '','' ''yratio=2.0,xratio'')" by simp
  have 4: "strip ''xratio'' = ''xratio''" by (simp add: strip_def isspace_def)
  have 5: "load_devices decimal_float [(''left'', ''xratio=0.5'')] [] [] =
             ([], Inr [(''left'', [(''xoffset'', 0), (''yoffset'', 0), (''xratio'', Finite (1 / 2)), (''yratio'', 1)])])"
    by (simp add: init_defs)
  have 6: "parse_params decimal_float [''yratio=2.0''] default_params [] =
             ([], Inr [(''xoffset'', 0), (''yoffset'', 0), (''xratio'', 1), (''yratio'', Finite 2)])"
    by (simp add: init_defs)
  from init_token_without_equals [of "''middle''" "''yratio=2.0,xratio''" ?items "''xratio''"
         decimal_float "[]" "[(''left'', ''xratio=0.5'')]" "[]"
         "[(''left'', [(''xoffset'', 0), (''yoffset'', 0), (''xratio'', Finite (1 / 2)), (''yratio'', 1)])]"
         "[''yratio=2.0'']" "[]" "[]"
         "[(''xoffset'', 0), (''yoffset'', 0), (''xratio'', 1), (''yratio'', Finite 2)]"
         "[(''right'', ''xoffset=0.5'')]"]
       1 2 3 4 5 6
  show ?thesis by simp
qed

text \<open>
  C10. A token with an unknown name and a value that \<open>float\<close> reads is logged and
  stored in the entry under that name, so the entry is no longer one of four fields.
  \<open>process\<close> does not see the difference: on the table cut down to the four fields it
  returns the same batch, the same frame, the same events and the same exception as on
  the table itself.
\<close>

theorem unknown_key_stored_but_unread:
  "(parse_params float_of ts default_params lg = (lg', Inr ps') \<and> t \<in> set ts \<and>
    split1 CHR ''='' (strip t) = [key, value] \<and> key \<notin> set valid_keys \<longrightarrow>
      has_key ps' key \<and> invalid_key_msg key \<in> set lg' \<and> canonical_params ps' \<noteq> ps') \<and>
   process (canonical_stage st) events s =
     map_sum id (\<lambda>r. (fst r, canonical_stage (fst (snd r)), snd (snd r))) (process st events s)"
proof (intro conjI impI)
  assume h: "parse_params float_of ts default_params lg = (lg', Inr ps') \<and> t \<in> set ts \<and>
    split1 CHR ''='' (strip t) = [key, value] \<and> key \<notin> set valid_keys"
  then have "has_key ps' key \<and> (key \<notin> set valid_keys \<longrightarrow> invalid_key_msg key \<in> set lg')"
    by (intro parse_params_stores [of float_of ts default_params lg lg' ps' t key "value"])
       simp_all
  with h have k: "has_key ps' key" "invalid_key_msg key \<in> set lg'" "key \<notin> set valid_keys"
    by simp_all
  from k show "has_key ps' key" "invalid_key_msg key \<in> set lg'" by simp_all
  from k(1,3) show "canonical_params ps' \<noteq> ps'" by (rule invalid_key_not_canonical)
next
  have e: "(devices (canonical_stage st) = []) = (devices st = [])"
    by (simp add: canonical_stage_def canonical_table_def)
  have f: "(canonical_stage st)\<lparr>frame := frame st + 1\<rparr> = canonical_stage (st\<lparr>frame := frame st + 1\<rparr>)"
    "frame (canonical_stage st) = frame st"
    by (simp_all add: canonical_stage_def)
  show "process (canonical_stage st) events s =
     map_sum id (\<lambda>r. (fst r, canonical_stage (fst (snd r)), snd (snd r))) (process st events s)"
  proof (cases "devices st = []")
    case True
    with e show ?thesis by (simp add: process_def)
  next
    case False
    with e have "devices (canonical_stage st) \<noteq> []" by simp
    with False show ?thesis
      by (simp add: process_def Let_def f(2) process_events_canonical f(1) [symmetric]
            split: sum.splits)
  qed
qed

theorem unknown_key_stored_but_unread_witness:
  "parse_params decimal_float (split CHR '','' ''xratio=0.5,foo=2.0'') default_params [] =
     ([''Calibration: invalid key provided: foo''],
      Inr [(''xoffset'', 0), (''yoffset'', 0), (''xratio'', Finite (1 / 2)), (''yratio'', 1), (''foo'', Finite 2)]) \<and>
   has_key [(''xoffset'', 0), (''yoffset'', 0), (''xratio'', Finite (1 / 2)), (''yratio'', 1), (''foo'', Finite 2)]
     ''foo'' \<and>
   canonical_params [(''xoffset'', 0), (''yoffset'', 0), (''xratio'', Finite (1 / 2)), (''yratio'', 1), (''foo'', Finite 2)] \<noteq>
     [(''xoffset'', 0), (''yoffset'', 0), (''xratio'', Finite (1 / 2)), (''yratio'', 1), (''foo'', Finite 2)] \<and>
   process (canonical_stage foo_stage) [(''update'', 0)] (\<lambda>a. example_event) =
     map_sum id (\<lambda>r. (fst r, canonical_stage (fst (snd r)), snd (snd r)))
       (process foo_stage [(''update'', 0)] (\<lambda>a. example_event))"
proof -
  let ?ps = "[(''xoffset'', 0), (''yoffset'', 0), (''xratio'', Finite (1 / 2)), (''yratio'', 1), (''foo'', Finite 2)]"
  have 1: "parse_params decimal_float (split CHR '','' ''xratio=0.5,foo=2.0'') default_params [] =
     ([''Calibration: invalid key provided: foo''], Inr ?ps)"
    by (simp add: init_defs)
  have 2: "''foo=2.0'' \<in> set (split CHR '','' ''xratio=0.5,foo=2.0'')" by simp
  have 3: "split1 CHR ''='' (strip ''foo=2.0'') = [''foo'', ''2.0'']"
    by (simp add: strip_def isspace_def split1_def)
  have 4: "''foo'' \<notin> set valid_keys" by (simp add: valid_keys_def)
  from unknown_key_stored_but_unread [of decimal_float "split CHR '','' ''xratio=0.5,foo=2.0''"
         "[]" "[''Calibration: invalid key provided: foo'']" ?ps "''foo=2.0''" "''foo''" "''2.0''"
         foo_stage "[(''update'', 0)]" "\<lambda>a. example_event"]
       1 2 3 4
  show ?thesis by simp
qed

end
